theory Spec2Isabelle
  imports Complex_Main "HOL-Library.AList"
begin

section \<open>JavaScript values\<close>

text \<open>
  The values that flow through the validation and scoring engine are JavaScript values:
  results returned by simulations, question objects read from the database, answers parsed
  from a solver's reply. They are modelled by one datatype.

  \<^item> \<open>JNum n\<close> is the integer-valued number \<open>n\<close>; the model covers the integers whose
    \<open>Number::toString\<close> is plain decimal notation (magnitude below \<open>10^21\<close>). Fractions, \<open>NaN\<close>
    and the infinities are outside the value domain.
  \<^item> A string is a list of code units; Isabelle's \<open>char\<close> covers the code units
    \<open>0x00\<close> to \<open>0xFF\<close>.
  \<^item> \<open>JObj ps\<close> lists the own enumerable properties of a plain object in enumeration order
    (keys are pairwise distinct in every object JavaScript can build). The objects covered
    have no \<open>toJSON\<close>, \<open>toString\<close> or \<open>valueOf\<close> property of their own.
  \<^item> \<open>JFun src\<close> is a function object with source text \<open>src\<close>.
\<close>

datatype jsval =
    JUndefined
  | JNull
  | JBool bool
  | JNum int
  | JStr string
  | JArr "jsval list"
  | JObj "(string \<times> jsval) list"
  | JFun string

text \<open>\<open>ToBoolean\<close>: what \<open>if (x)\<close>, \<open>!x\<close>, \<open>x && y\<close> and \<open>x || y\<close> test.\<close>

fun js_truthy :: "jsval \<Rightarrow> bool" where
  "js_truthy JUndefined = False"
| "js_truthy JNull = False"
| "js_truthy (JBool b) = b"
| "js_truthy (JNum n) = (n \<noteq> 0)"
| "js_truthy (JStr s) = (s \<noteq> [])"
| "js_truthy (JArr xs) = True"
| "js_truthy (JObj ps) = True"
| "js_truthy (JFun src) = True"

text \<open>\<open>a ?? b\<close> and \<open>a || b\<close>.\<close>

definition nullish :: "jsval \<Rightarrow> bool" where
  "nullish v = (v = JUndefined \<or> v = JNull)"

definition coalesce :: "jsval \<Rightarrow> jsval \<Rightarrow> jsval" where
  "coalesce a b = (if nullish a then b else a)"

definition js_or :: "jsval \<Rightarrow> jsval \<Rightarrow> jsval" where
  "js_or a b = (if js_truthy a then a else b)"

text \<open>
  \<open>v.key\<close> on a value that is not \<open>null\<close> or \<open>undefined\<close>: the property of a plain object,
  \<open>undefined\<close> when it is absent. (The keys read in this development are \<open>id\<close>, \<open>text\<close>,
  \<open>answer\<close>, \<open>value\<close>, \<open>message\<close>, \<open>code\<close> and the like, which no array, string, number,
  boolean or function carries.) A read on \<open>null\<close> or \<open>undefined\<close> raises a \<open>TypeError\<close>;
  the places where the source can do that model the raise themselves.
\<close>

fun js_get :: "jsval \<Rightarrow> string \<Rightarrow> jsval" where
  "js_get (JObj ps) key = (case map_of ps key of Some v \<Rightarrow> v | None \<Rightarrow> JUndefined)"
| "js_get v key = JUndefined"

text \<open>\<open>typeof v === 'object'\<close> and \<open>key in v\<close> (for a \<open>v\<close> that passed the former).\<close>

fun typeof_object :: "jsval \<Rightarrow> bool" where
  "typeof_object JNull = True"
| "typeof_object (JArr xs) = True"
| "typeof_object (JObj ps) = True"
| "typeof_object v = False"

fun js_in :: "string \<Rightarrow> jsval \<Rightarrow> bool" where
  "js_in key (JObj ps) = (key \<in> set (map fst ps))"
| "js_in key v = False"

subsection \<open>Conversion to string\<close>

definition digit_char :: "nat \<Rightarrow> char" where
  "digit_char d = ''0123456789'' ! d"

fun digits :: "nat \<Rightarrow> string" where
  "digits n = (if n < 10 then [digit_char n] else digits (n div 10) @ [digit_char (n mod 10)])"

declare digits.simps [simp del]

definition Number_toString :: "int \<Rightarrow> string" where
  "Number_toString n = (if n < 0 then CHR ''-'' # digits (nat (- n)) else digits (nat n))"

text \<open>\<open>Array.prototype.join\<close> on the already converted elements.\<close>

fun join :: "string \<Rightarrow> string list \<Rightarrow> string" where
  "join sep [] = []"
| "join sep [x] = x"
| "join sep (x # y # ys) = x @ sep @ join sep (y # ys)"

text \<open>\<open>String(v)\<close>. An array is joined with commas, \<open>null\<close> and \<open>undefined\<close> elements
  giving the empty string.\<close>

fun js_String :: "jsval \<Rightarrow> string" where
  "js_String JUndefined = ''undefined''"
| "js_String JNull = ''null''"
| "js_String (JBool b) = (if b then ''true'' else ''false'')"
| "js_String (JNum n) = Number_toString n"
| "js_String (JStr s) = s"
| "js_String (JArr xs) =
     join '','' (map (\<lambda>x. if x = JUndefined \<or> x = JNull then [] else js_String x) xs)"
| "js_String (JObj ps) = ''[object Object]''"
| "js_String (JFun src) = src"

text \<open>\<open>String.prototype.trim\<close> and \<open>toLowerCase\<close> on code units below \<open>0x100\<close>: the
  white space and line terminators there are TAB, LF, VT, FF, CR, SP and NBSP; the letters
  with a lower-case partner are \<open>A\<close>-\<open>Z\<close> and \<open>0xC0\<close>-\<open>0xDE\<close> without \<open>0xD7\<close>.\<close>

definition is_whitespace :: "char \<Rightarrow> bool" where
  "is_whitespace c =
     (c \<in> set [CHR 0x09, CHR 0x0A, CHR 0x0B, CHR 0x0C, CHR 0x0D, CHR 0x20, CHR 0xA0])"

definition trim :: "string \<Rightarrow> string" where
  "trim s = rev (dropWhile is_whitespace (rev (dropWhile is_whitespace s)))"

definition lower_char :: "char \<Rightarrow> char" where
  "lower_char c =
     (let n = (of_char c :: nat)
      in if (65 \<le> n \<and> n \<le> 90) \<or> (192 \<le> n \<and> n \<le> 222 \<and> n \<noteq> 215)
         then char_of (n + 32) else c)"

definition toLowerCase :: "string \<Rightarrow> string" where
  "toLowerCase s = map lower_char s"

text \<open>\<open>s.includes(sub)\<close>.\<close>

fun str_includes :: "string \<Rightarrow> string \<Rightarrow> bool" where
  "str_includes [] sub = (sub = [])"
| "str_includes (c # cs) sub = (take (length sub) (c # cs) = sub \<or> str_includes cs sub)"

subsection \<open>\<open>JSON.stringify\<close>\<close>

definition hex_char :: "nat \<Rightarrow> char" where
  "hex_char d = ''0123456789abcdef'' ! d"

definition quote_char :: "char \<Rightarrow> string" where
  "quote_char c =
     (if c = CHR 0x22 then [CHR 0x5C, CHR 0x22]
      else if c = CHR 0x5C then [CHR 0x5C, CHR 0x5C]
      else if c = CHR 0x08 then [CHR 0x5C, CHR ''b'']
      else if c = CHR 0x0C then [CHR 0x5C, CHR ''f'']
      else if c = CHR 0x0A then [CHR 0x5C, CHR ''n'']
      else if c = CHR 0x0D then [CHR 0x5C, CHR ''r'']
      else if c = CHR 0x09 then [CHR 0x5C, CHR ''t'']
      else if (of_char c :: nat) < 32
        then [CHR 0x5C, CHR ''u'', CHR ''0'', CHR ''0'',
              hex_char ((of_char c :: nat) div 16), hex_char ((of_char c :: nat) mod 16)]
      else [c])"

definition QuoteJSONString :: "string \<Rightarrow> string" where
  "QuoteJSONString s = CHR 0x22 # concat (map quote_char s) @ [CHR 0x22]"

text \<open>
  \<open>JSON.stringify(v)\<close> with no replacer and no indentation. The result is \<open>undefined\<close>
  (\<open>None\<close>) for \<open>undefined\<close> and for a function; inside an array such an element is written
  \<open>null\<close>, inside an object such a property is left out. Properties are written in
  enumeration order.
\<close>

fun JSON_stringify :: "jsval \<Rightarrow> string option" where
  "JSON_stringify JUndefined = None"
| "JSON_stringify (JFun src) = None"
| "JSON_stringify JNull = Some ''null''"
| "JSON_stringify (JBool b) = Some (if b then ''true'' else ''false'')"
| "JSON_stringify (JNum n) = Some (Number_toString n)"
| "JSON_stringify (JStr s) = Some (QuoteJSONString s)"
| "JSON_stringify (JArr xs) =
     Some (''['' @ join '',''
        (map (\<lambda>x. case JSON_stringify x of None \<Rightarrow> ''null'' | Some s \<Rightarrow> s) xs) @ '']'')"
| "JSON_stringify (JObj ps) =
     Some (''{'' @ join '',''
        (concat (map (\<lambda>p. case JSON_stringify (snd p) of None \<Rightarrow> []
                            | Some s \<Rightarrow> [QuoteJSONString (fst p) @ '':'' @ s]) ps)) @ ''}'')"

section \<open>World quality score (\<open>helpers/quality.js\<close>)\<close>

text \<open>
  Scores are modelled as exact reals. \<open>Math.max(...scores)\<close> and \<open>Math.min(...scores)\<close> fold
  over the arguments; both are only reached with at least two scores. The two nested
  \<open>for\<close> loops visit the index pairs \<open>i < j\<close> in lexicographic order.
\<close>

fun Math_max :: "real list \<Rightarrow> real" where
  "Math_max [] = 0"
| "Math_max (x # xs) = fold max xs x"

fun Math_min :: "real list \<Rightarrow> real" where
  "Math_min [] = 0"
| "Math_min (x # xs) = fold min xs x"

definition index_pairs :: "nat \<Rightarrow> (nat \<times> nat) list" where
  "index_pairs n = concat (map (\<lambda>i. map (Pair i) [i + 1 ..< n]) [0 ..< n - 1])"

definition pair_loop :: "real list \<Rightarrow> real \<times> nat" where
  "pair_loop scores =
     fold (\<lambda>(i, j) (pairSum, pairCount). (pairSum + \<bar>scores ! i - scores ! j\<bar>, pairCount + 1))
       (index_pairs (length scores)) (0, 0)"

text \<open>
  The result is \<open>None\<close> where JavaScript yields \<open>NaN\<close>: dividing by \<open>Q = 0\<close> gives an infinity
  (clamped to \<open>1\<close> or \<open>0\<close>) for a non-zero numerator and \<open>NaN\<close> for \<open>0 / 0\<close>, which
  \<open>Math.min\<close> and \<open>Math.max\<close> pass through.
\<close>

definition quality :: "real list \<Rightarrow> real \<Rightarrow> real option" where
  "quality scores Q =
     (if length scores = 0 then Some 0
      else if length scores = 1 then Some 0
      else
        let top = Math_max scores;
            bot = Math_min scores;
            spread = top - bot;
            (pairSum, pairCount) = pair_loop scores;
            pair_avg = (if pairCount > 0 then pairSum / real pairCount else 0);
            distinct = real (card (set scores)) - 1;
            numerator = 0.4 * spread + 0.4 * pair_avg + 0.2 * distinct
        in if Q = 0
           then (if numerator = 0 then None else Some (max 0 (min 1 (if numerator > 0 then 1 else 0))))
           else Some (max 0 (min 1 (numerator / Q))))"

text \<open>The quality formula in the words of the specification.\<close>

definition clamp01 :: "real \<Rightarrow> real" where
  "clamp01 x = max 0 (min 1 x)"

definition pairAvg_spec :: "real list \<Rightarrow> real" where
  "pairAvg_spec scores =
     (\<Sum>(i, j) \<in> {(i, j). i < j \<and> j < length scores}. \<bar>scores ! i - scores ! j\<bar>)
       / real (card {(i, j). i < j \<and> j < length scores})"

definition quality_spec :: "real list \<Rightarrow> real \<Rightarrow> real" where
  "quality_spec scores Q =
     clamp01 ((0.4 * (Max (set scores) - Min (set scores)) + 0.4 * pairAvg_spec scores
               + 0.2 * (real (card (set scores)) - 1)) / Q)"

section \<open>Running untrusted programs\<close>

text \<open>
  A statement or call either completes normally with a value or throws a value. Any
  JavaScript value can be thrown; an \<open>Error\<close> object is modelled by a plain object with a
  \<open>message\<close> property (and a \<open>code\<close> property where Node sets one).
\<close>

datatype 'a completion = Normal 'a | Throw jsval

definition js_Error :: "string \<Rightarrow> jsval" where
  "js_Error msg = JObj [(''message'', JStr msg)]"

text \<open>The \<open>TypeError\<close> raised by reading property \<open>key\<close> of \<open>null\<close> or \<open>undefined\<close>.\<close>

definition TypeError_read :: "jsval \<Rightarrow> string \<Rightarrow> jsval" where
  "TypeError_read v key =
     js_Error (''Cannot read properties of '' @ js_String v @ '' (reading '' @ [CHR 0x27] @ key
               @ [CHR 0x27] @ '')'')"

text \<open>
  What the programs written by language models do when they are run is not known to the
  validator; it is a parameter here. A resolved \<open>Simulation\<close> class is seen through the two scripts
  that \<open>_runSimulation\<close> runs in a fresh VM context:
  \<^item> \<open>getAnswer fnCode params\<close>: the script \<open>fnCode; getAnswer(parameters)\<close>, where \<open>fnCode\<close>
    is the question's \<open>validator_fn\<close> (given here as stored; the source strips Markdown code
    fences from it first);
  \<^item> \<open>run params\<close>: the script \<open>new Simulation().run(parameters)\<close>.
  A script that exceeds the timeout throws Node's error with code
  \<open>ERR_SCRIPT_EXECUTION_TIMEOUT\<close>, so the time limit needs no parameter of its own.
  The environment provides
  \<^item> \<open>evalFn s\<close>: \<open>new Function('return ' + s + ';')()\<close>, the evaluation of a parameter
    string in the host realm;
  \<^item> \<open>loadWorld code\<close>: running the creator's program and looking \<open>Simulation\<close> up in its
    VM context (\<open>None\<close>: no such class);
  \<^item> \<open>loadValidator code\<close>: running a validator's program (code fences stripped) and
    taking the class of \<open>simulation\<close>, else \<open>Simulation\<close> (\<open>None\<close>: neither is defined).
  Programs are taken to be deterministic and to keep no state between runs; an evaluation
  or a program load that never returns is outside the model (only the two scripts above run
  under a timeout).
\<close>

record simulation =
  getAnswer :: "string \<Rightarrow> (string \<times> jsval) list \<Rightarrow> jsval completion"
  run :: "(string \<times> jsval) list \<Rightarrow> jsval completion"

record env =
  evalFn :: "string \<Rightarrow> jsval completion"
  loadWorld :: "string \<Rightarrow> simulation option completion"
  loadValidator :: "string \<Rightarrow> simulation option completion"

section \<open>The question runner (\<open>Validator._runSimulation\<close>)\<close>

text \<open>
  One entry of the results object: \<open>{question, parameters, result}\<close> or
  \<open>{question, parameters, error}\<close>. A property the object literal does not set reads as
  \<open>undefined\<close>.
\<close>

record run_result =
  r_question :: jsval
  r_parameters :: jsval
  r_result :: jsval
  r_error :: jsval

type_synonym results = "(string \<times> run_result) list"

text \<open>The own enumerable properties copied by \<open>{ ...v }\<close>.\<close>

fun spread_props :: "jsval \<Rightarrow> (string \<times> jsval) list" where
  "spread_props (JObj ps) = ps"
| "spread_props (JArr xs) = zip (map digits [0 ..< length xs]) xs"
| "spread_props (JStr s) = zip (map digits [0 ..< length s]) (map (\<lambda>c. JStr [c]) s)"
| "spread_props v = []"

text \<open>
  The \<open>for (const key in params)\<close> loop: a string parameter that contains \<open>() =>\<close> is
  evaluated and replaced; an evaluation error is logged and thrown again.
\<close>

fun eval_params :: "(string \<Rightarrow> jsval completion) \<Rightarrow> (string \<times> jsval) list
    \<Rightarrow> (string \<times> jsval) list completion" where
  "eval_params ev [] = Normal []"
| "eval_params ev ((key, v) # rest) =
     (case (case v of
              JStr s \<Rightarrow> if str_includes s ''() =>'' then ev s else Normal v
            | _ \<Rightarrow> Normal v) of
        Throw evalErr \<Rightarrow> Throw evalErr
      | Normal v' \<Rightarrow>
          (case eval_params ev rest of
             Throw evalErr \<Rightarrow> Throw evalErr
           | Normal rest' \<Rightarrow> Normal ((key, v') # rest')))"

text \<open>
  The \<open>catch (err)\<close> around each VM run: a timeout becomes \<open>Error('Simulation timeout')\<close>,
  anything else is thrown again. Reading \<open>err.code\<close> of a thrown \<open>null\<close> or \<open>undefined\<close>
  raises a \<open>TypeError\<close> in its place.
\<close>

definition vm_catch :: "jsval \<Rightarrow> jsval" where
  "vm_catch err =
     (if nullish err then TypeError_read err ''code''
      else if js_get err ''code'' = JStr ''ERR_SCRIPT_EXECUTION_TIMEOUT''
              \<or> str_includes (js_String (js_get err ''message'')) ''Script execution timed out''
        then js_Error ''Simulation timeout''
      else err)"

text \<open>The body of the \<open>try\<close> block for one question.\<close>

definition run_question :: "(string \<Rightarrow> jsval completion) \<Rightarrow> simulation \<Rightarrow> bool \<Rightarrow> jsval
    \<Rightarrow> run_result completion" where
  "run_question ev SimulationClass allowFallback question =
     (case eval_params ev (spread_props (js_or (js_get question ''parameters'') (JObj []))) of
        Throw evalErr \<Rightarrow> Throw evalErr
      | Normal params \<Rightarrow>
          (case (case js_get question ''validator_fn'' of
                   JStr fnCodeRaw \<Rightarrow>
                     if length (trim fnCodeRaw) > 0
                     then (case getAnswer SimulationClass fnCodeRaw params of
                             Throw err \<Rightarrow> Throw (vm_catch err)
                           | Normal r \<Rightarrow> Normal r)
                     else Normal JUndefined
                 | _ \<Rightarrow> Normal JUndefined) of
             Throw err \<Rightarrow> Throw err
           | Normal result \<Rightarrow>
               if result = JUndefined \<and> allowFallback then
                 (case run SimulationClass params of
                    Throw err \<Rightarrow> Throw (vm_catch err)
                  | Normal r \<Rightarrow>
                      Normal \<lparr>r_question = js_get question ''text'', r_parameters = JObj params,
                              r_result = r, r_error = JUndefined\<rparr>)
               else if result = JUndefined then
                 Throw (js_Error ''Validator_fn failed and fallback is disabled'')
               else
                 Normal \<lparr>r_question = js_get question ''text'', r_parameters = JObj params,
                         r_result = result, r_error = JUndefined\<rparr>))"

text \<open>
  The \<open>for (const question of questions)\<close> loop. \<open>question.id\<close> is read outside the \<open>try\<close>
  block; the \<open>catch (error)\<close> block stores \<open>error.message\<close>, and that read raises a
  \<open>TypeError\<close> out of the loop when the thrown value is \<open>null\<close> or \<open>undefined\<close>.
  \<open>results[questionId] = ...\<close> keeps the position of a key that is already present and
  appends a new one (JavaScript enumerates keys that are array indices first; no statement
  below depends on the order of the results).
\<close>

fun run_loop :: "(string \<Rightarrow> jsval completion) \<Rightarrow> simulation \<Rightarrow> bool \<Rightarrow> jsval list
    \<Rightarrow> results \<Rightarrow> results completion" where
  "run_loop ev SimulationClass allowFallback [] results = Normal results"
| "run_loop ev SimulationClass allowFallback (question # rest) results =
     (if nullish question then Throw (TypeError_read question ''id'')
      else
        let questionId = js_String (js_get question ''id'') in
        case run_question ev SimulationClass allowFallback question of
          Normal entry \<Rightarrow>
            run_loop ev SimulationClass allowFallback rest
              (AList.update questionId entry results)
        | Throw error \<Rightarrow>
            if nullish error then Throw (TypeError_read error ''message'')
            else
              run_loop ev SimulationClass allowFallback rest
                (AList.update questionId
                   \<lparr>r_question = js_get question ''text'',
                    r_parameters = js_or (js_get question ''parameters'') (JObj []),
                    r_result = JUndefined,
                    r_error = js_get error ''message''\<rparr> results))"

definition runSimulation :: "(string \<Rightarrow> jsval completion) \<Rightarrow> simulation option \<Rightarrow> jsval list
    \<Rightarrow> bool \<Rightarrow> results completion" where
  "runSimulation ev SimulationClass questions allowFallback =
     (case SimulationClass of
        None \<Rightarrow> Throw (js_Error ''SimulationClass is required'')
      | Some sim \<Rightarrow>
          if questions = [] then Throw (js_Error ''No questions provided'')
          else run_loop ev sim allowFallback questions [])"

section \<open>The consensus engine (class \<open>Validator\<close>)\<close>

text \<open>
  A database record of a world. A text field that the record does not have is the empty
  string (both are falsy), \<open>world_code\<close> is \<open>None\<close> when the record has no program, and
  \<open>world_questions\<close> stands for \<open>world_info?.questions || []\<close>. \<open>validation_code\<close> is
  stored in one of two formats: an array of programs, or an object \<open>{codes, models}\<close>.
\<close>

datatype validation_code = CodeArray "string list" | CodeObject "string list" "string list" | NoCodes

record dbRecord =
  world_name :: string
  creator :: string
  world_code :: "string option"
  world_questions :: "jsval list"
  validation_codes :: validation_code

text \<open>
  \<open>worldData\<close> is what \<open>loadWorldFromDB\<close> extracts from the record. A \<open>validator_run\<close> is
  one element of \<open>this.validatorResults\<close>: \<open>{validatorId, validatorModel, results}\<close>, or
  \<open>{validatorId, validatorModel, error}\<close> for a validator that failed as a whole.
\<close>

record worldData =
  worldName :: string
  modelName :: string
  code :: "string option"
  questions :: "jsval list"
  validators :: "string list"
  validatorModels :: "string list"

definition loadWorldFromDB :: "dbRecord \<Rightarrow> worldData" where
  "loadWorldFromDB r =
     (let (vs, models) =
            (case validation_codes r of
               CodeArray codes \<Rightarrow>
                 (codes, map (\<lambda>index. ''Validator '' @ digits (index + 1)) [0 ..< length codes])
             | CodeObject codes models \<Rightarrow> (codes, models)
             | NoCodes \<Rightarrow> ([], []))
      in \<lparr>worldName = (if world_name r = [] then ''Unknown World'' else world_name r),
          modelName = creator r,
          code = world_code r,
          questions = world_questions r,
          validators = vs,
          validatorModels = models\<rparr>)"

record validator_run =
  validatorId :: nat
  validatorModel :: string
  vr_results :: "results option"
  vr_error :: jsval

record validator =
  world :: worldData
  creatorResults :: "results option"
  validatorResults :: "validator_run list"
  success :: bool

text \<open>The comparison report built by \<open>compareResults\<close>.\<close>

record validator_entry =
  e_validatorId :: nat
  e_validatorModel :: string
  e_result :: jsval
  e_error :: jsval
  matches :: bool

record question_cmp =
  c_question :: jsval
  creatorResult :: jsval
  c_validatorResults :: "validator_entry list"
  agreement :: bool

record agreement_summary =
  total_count :: nat
  agreed :: nat
  percentage :: "real option"

record comparison =
  c_worldName :: string
  c_modelName :: string
  c_questions :: "(string \<times> question_cmp) list"
  validatorAgreement :: agreement_summary

record agreed_answer =
  a_question :: jsval
  expectedResult :: jsval

record validation_outcome =
  o_worldName :: string
  o_modelName :: string
  o_success :: bool
  o_error :: jsval
  o_agreement :: "agreement_summary option"
  o_comparisonResults :: "comparison option"
  o_agreedAnswers :: "(string \<times> agreed_answer) list option"
  o_creatorResults :: "results option"
  o_validatorResults :: "validator_run list"

subsection \<open>\<open>runWorldCode\<close>\<close>

text \<open>
  The checks of \<open>runWorldCode\<close>, the resolution of the \<open>Simulation\<close> class and the run
  of all questions with the default options (no fallback). The message of the error for a
  missing class is given without the list of names that the source appends to it.
\<close>

definition runWorldCode :: "env \<Rightarrow> validator \<Rightarrow> (results \<times> validator) completion" where
  "runWorldCode E this =
     (case code (world this) of
        None \<Rightarrow> Throw (js_Error ''World code not loaded'')
      | Some src \<Rightarrow>
          if src = [] then Throw (js_Error ''World code not loaded'')
          else if questions (world this) = [] then
            Throw (js_Error ''No questions found for this CVRB'')
          else
            (case loadWorld E src of
               Throw err \<Rightarrow> Throw err
             | Normal None \<Rightarrow> Throw (js_Error ''No Simulation class found in world code'')
             | Normal (Some SimulationClass) \<Rightarrow>
                 (case runSimulation (evalFn E) (Some SimulationClass) (questions (world this))
                         False of
                    Throw err \<Rightarrow> Throw err
                  | Normal results \<Rightarrow>
                      Normal (results, this\<lparr>creatorResults := Some results\<rparr>))))"

subsection \<open>\<open>runValidatorCode\<close>\<close>

text \<open>
  The body of the \<open>try\<close> block for validator number \<open>i\<close> (counted from \<open>0\<close>), and the loop
  with its \<open>catch (error)\<close> block, which stores \<open>error.message\<close>; reading the message of
  a thrown \<open>null\<close> or \<open>undefined\<close> raises a \<open>TypeError\<close> out of the loop.
\<close>

definition validator_model_name :: "string list \<Rightarrow> nat \<Rightarrow> string" where
  "validator_model_name models i =
     (if i < length models \<and> models ! i \<noteq> [] then models ! i
      else ''Validator '' @ digits (i + 1))"

definition run_validator :: "env \<Rightarrow> jsval list \<Rightarrow> nat \<Rightarrow> string \<Rightarrow> string
    \<Rightarrow> results completion" where
  "run_validator E qs i modelLabel validatorCode =
     (case loadValidator E validatorCode of
        Throw err \<Rightarrow> Throw err
      | Normal None \<Rightarrow>
          Throw (js_Error (''No Simulation class or simulation instance found in validator #''
                           @ digits (i + 1) @ '' ('' @ modelLabel @ '')''))
      | Normal (Some SimulationClass) \<Rightarrow> runSimulation (evalFn E) (Some SimulationClass) qs False)"

fun validators_loop :: "env \<Rightarrow> jsval list \<Rightarrow> string list \<Rightarrow> string list \<Rightarrow> nat
    \<Rightarrow> validator_run list \<Rightarrow> validator_run list completion" where
  "validators_loop E qs models [] i acc = Normal acc"
| "validators_loop E qs models (validatorCode # rest) i acc =
     (case run_validator E qs i (validator_model_name models i) validatorCode of
        Normal results \<Rightarrow>
          validators_loop E qs models rest (i + 1)
            (acc @ [\<lparr>validatorId = i + 1, validatorModel = validator_model_name models i,
                     vr_results = Some results, vr_error = JUndefined\<rparr>])
      | Throw error \<Rightarrow>
          if nullish error then Throw (TypeError_read error ''message'')
          else
            validators_loop E qs models rest (i + 1)
              (acc @ [\<lparr>validatorId = i + 1, validatorModel = validator_model_name models i,
                       vr_results = None, vr_error = js_get error ''message''\<rparr>]))"

definition runValidatorCode :: "env \<Rightarrow> validator \<Rightarrow> (validator_run list \<times> validator) completion" where
  "runValidatorCode E this =
     (if validators (world this) = [] then Throw (js_Error ''No validators found for this CVRB'')
      else if questions (world this) = [] then
        Throw (js_Error ''No questions found for this CVRB'')
      else
        (case validators_loop E (questions (world this)) (validatorModels (world this))
                (validators (world this)) 0 [] of
           Throw err \<Rightarrow> Throw err
         | Normal vrs \<Rightarrow> Normal (vrs, this\<lparr>validatorResults := vrs\<rparr>)))"

subsection \<open>\<open>compareResults\<close>\<close>

text \<open>
  What is pushed for one validator on one question. The three early exits (\<open>continue\<close>)
  record \<open>matches: false\<close>; otherwise the two values are serialised with \<open>JSON.stringify\<close>
  and the strings (or \<open>undefined\<close>) compared with \<open>===\<close>. A validator entry with a falsy
  \<open>error\<close> and no \<open>results\<close> makes \<open>validator.results[questionId]\<close> raise a \<open>TypeError\<close>.
\<close>

definition compare_validator :: "run_result \<Rightarrow> string \<Rightarrow> validator_run
    \<Rightarrow> validator_entry completion" where
  "compare_validator creatorRes questionId v =
     (if js_truthy (vr_error v) then
        Normal \<lparr>e_validatorId = validatorId v, e_validatorModel = validatorModel v,
                e_result = JUndefined, e_error = vr_error v, matches = False\<rparr>
      else
        case vr_results v of
          None \<Rightarrow> Throw (TypeError_read JUndefined questionId)
        | Some rs \<Rightarrow>
            (case map_of rs questionId of
               None \<Rightarrow>
                 Normal \<lparr>e_validatorId = validatorId v, e_validatorModel = validatorModel v,
                         e_result = JUndefined, e_error = JStr ''Question not processed'',
                         matches = False\<rparr>
             | Some validatorRes \<Rightarrow>
                 if js_truthy (r_error validatorRes) then
                   Normal \<lparr>e_validatorId = validatorId v, e_validatorModel = validatorModel v,
                           e_result = JUndefined, e_error = r_error validatorRes,
                           matches = False\<rparr>
                 else
                   let creatorValue = JSON_stringify (r_result creatorRes);
                       validatorValue = JSON_stringify (r_result validatorRes)
                   in Normal \<lparr>e_validatorId = validatorId v, e_validatorModel = validatorModel v,
                              e_result = r_result validatorRes, e_error = JUndefined,
                              matches = (creatorValue = validatorValue)\<rparr>))"

text \<open>The inner loop \<open>for (const validator of this.validatorResults)\<close>.\<close>

fun compare_question :: "run_result \<Rightarrow> string \<Rightarrow> validator_run list \<Rightarrow> question_cmp
    \<Rightarrow> question_cmp completion" where
  "compare_question creatorRes questionId [] q = Normal q"
| "compare_question creatorRes questionId (v # vs) q =
     (case compare_validator creatorRes questionId v of
        Throw err \<Rightarrow> Throw err
      | Normal entry \<Rightarrow>
          compare_question creatorRes questionId vs
            (if matches entry
             then q\<lparr>c_validatorResults := c_validatorResults q @ [entry]\<rparr>
             else q\<lparr>c_validatorResults := c_validatorResults q @ [entry], agreement := False\<rparr>))"

text \<open>The outer loop \<open>for (const questionId of questionIds)\<close>, with
  \<open>questionIds = Object.keys(this.creatorResults)\<close>; each question starts from
  \<open>{question, creatorResult, validatorResults: [], agreement: true}\<close>.\<close>

definition question_init :: "run_result \<Rightarrow> question_cmp" where
  "question_init creatorRes =
     \<lparr>c_question = r_question creatorRes, creatorResult = r_result creatorRes,
      c_validatorResults = [], agreement = True\<rparr>"

fun compare_loop :: "results \<Rightarrow> validator_run list \<Rightarrow> string list
    \<Rightarrow> (string \<times> question_cmp) list \<Rightarrow> (string \<times> question_cmp) list completion" where
  "compare_loop cr vrs [] qs = Normal qs"
| "compare_loop cr vrs (questionId # ids) qs =
     (case map_of cr questionId of
        None \<Rightarrow> Throw (TypeError_read JUndefined ''question'')
      | Some creatorRes \<Rightarrow>
          (case compare_question creatorRes questionId vrs (question_init creatorRes) of
             Throw err \<Rightarrow> Throw err
           | Normal q \<Rightarrow> compare_loop cr vrs ids (AList.update questionId q qs)))"

text \<open>The counting loop: \<open>if (comparisonResults.questions[questionId].agreement)
  agreedQuestions++\<close>. Every id was stored by the loop above, so the lookup finds it.\<close>

fun count_agreed :: "(string \<times> question_cmp) list \<Rightarrow> string list \<Rightarrow> nat \<Rightarrow> nat" where
  "count_agreed qs [] agreedQuestions = agreedQuestions"
| "count_agreed qs (questionId # ids) agreedQuestions =
     count_agreed qs ids
       (case map_of qs questionId of
          Some q \<Rightarrow> if agreement q then agreedQuestions + 1 else agreedQuestions
        | None \<Rightarrow> agreedQuestions)"

text \<open>
  \<open>compareResults\<close> first runs the creator's program and the validators' programs when
  their results are missing, then compares. \<open>percentage\<close> is \<open>None\<close> for JavaScript's
  \<open>NaN\<close> (\<open>0 / 0\<close>). The method returns the report and leaves the verdict in
  \<open>this.success\<close>; an exception is thrown again and leaves \<open>this.success\<close> as it was.
\<close>

definition compare_all :: "validator \<Rightarrow> results \<Rightarrow> (comparison \<times> validator) completion" where
  "compare_all this cr =
     (let questionIds = map fst cr in
      case compare_loop cr (validatorResults this) questionIds [] of
        Throw err \<Rightarrow> Throw err
      | Normal qs \<Rightarrow>
          let totalQuestions = length questionIds;
              agreedQuestions = count_agreed qs questionIds 0
          in Normal
               (\<lparr>c_worldName = worldName (world this), c_modelName = modelName (world this),
                 c_questions = qs,
                 validatorAgreement =
                   \<lparr>total_count = totalQuestions, agreed = agreedQuestions,
                    percentage =
                      (if totalQuestions = 0 then None
                       else Some (real agreedQuestions / real totalQuestions * 100))\<rparr>\<rparr>,
                this\<lparr>success := (agreedQuestions = totalQuestions)\<rparr>))"

definition compareResults :: "env \<Rightarrow> validator \<Rightarrow> (comparison \<times> validator) completion" where
  "compareResults E this =
     (case (if creatorResults this = None
            then (case runWorldCode E this of Throw err \<Rightarrow> Throw err
                  | Normal (r, this') \<Rightarrow> Normal this')
            else Normal this) of
        Throw err \<Rightarrow> Throw err
      | Normal this1 \<Rightarrow>
          (case (if validatorResults this1 = []
                 then (case runValidatorCode E this1 of Throw err \<Rightarrow> Throw err
                       | Normal (r, this') \<Rightarrow> Normal this')
                 else Normal this1) of
             Throw err \<Rightarrow> Throw err
           | Normal this2 \<Rightarrow>
               (case creatorResults this2 of
                  None \<Rightarrow> Throw (js_Error ''Cannot convert undefined or null to object'')
                | Some cr \<Rightarrow> compare_all this2 cr)))"

subsection \<open>\<open>getAgreedAnswers\<close> and \<open>validateWorldFromDB\<close>\<close>

definition getAgreedAnswers :: "validator \<Rightarrow> comparison option
    \<Rightarrow> (string \<times> agreed_answer) list option" where
  "getAgreedAnswers this comparisonResults =
     (case comparisonResults of
        None \<Rightarrow> None
      | Some cmp \<Rightarrow>
          if \<not> success this then None
          else Some (fold (\<lambda>(questionId, data) answers.
                        AList.update questionId
                          \<lparr>a_question = c_question data, expectedResult = creatorResult data\<rparr>
                          answers)
                      (c_questions cmp) []))"

text \<open>
  \<open>validateWorldFromDB\<close> on a new \<open>Validator\<close>. Its \<open>catch (error)\<close> block returns
  \<open>{worldName, modelName, success: false, error: error.message}\<close> with the names taken
  from the record; the read of \<open>error.message\<close> raises when the thrown value is \<open>null\<close> or
  \<open>undefined\<close>.
\<close>

definition validation_failed :: "dbRecord \<Rightarrow> jsval \<Rightarrow> validation_outcome completion" where
  "validation_failed r error =
     (if nullish error then Throw (TypeError_read error ''message'')
      else Normal \<lparr>o_worldName = (if world_name r = [] then ''Unknown'' else world_name r),
                   o_modelName = (if creator r = [] then ''Unknown'' else creator r),
                   o_success = False,
                   o_error = js_get error ''message'', o_agreement = None,
                   o_comparisonResults = None, o_agreedAnswers = None,
                   o_creatorResults = None, o_validatorResults = []\<rparr>)"

definition validateWorldFromDB :: "env \<Rightarrow> dbRecord \<Rightarrow> validation_outcome completion" where
  "validateWorldFromDB E r =
     (let w = loadWorldFromDB r;
          this = \<lparr>world = w, creatorResults = None, validatorResults = [], success = False\<rparr>
      in case runWorldCode E this of
           Throw error \<Rightarrow> validation_failed r error
         | Normal (r1, this1) \<Rightarrow>
             (case runValidatorCode E this1 of
                Throw error \<Rightarrow> validation_failed r error
              | Normal (r2, this2) \<Rightarrow>
                  (case compareResults E this2 of
                     Throw error \<Rightarrow> validation_failed r error
                   | Normal (comparisonResults, this3) \<Rightarrow>
                       Normal \<lparr>o_worldName = worldName w, o_modelName = modelName w,
                               o_success = success this3, o_error = JUndefined,
                               o_agreement = Some (validatorAgreement comparisonResults),
                               o_comparisonResults = Some comparisonResults,
                               o_agreedAnswers = getAgreedAnswers this3 (Some comparisonResults),
                               o_creatorResults = creatorResults this3,
                               o_validatorResults = validatorResults this3\<rparr>)))"

section \<open>The solver outcome scorer (\<open>SolverController.solveWorld\<close>)\<close>

text \<open>
  The expected answers of a world: \<open>expectedAnswers[q.id] = q.expectedAnswer ??
  q.expected_result ?? q.expected_answer ?? q.answer ?? q.expected ?? null\<close> for every
  question with a truthy id. \<open>obj[key]\<close> on the object built this way is \<open>undefined\<close> for
  a key that was never stored (properties inherited from \<open>Object.prototype\<close> are not
  modelled).
\<close>

definition expected_answer :: "jsval \<Rightarrow> jsval" where
  "expected_answer q =
     coalesce (js_get q ''expectedAnswer'')
       (coalesce (js_get q ''expected_result'')
          (coalesce (js_get q ''expected_answer'')
             (coalesce (js_get q ''answer'') (coalesce (js_get q ''expected'') JNull))))"

fun expectedAnswers_of :: "jsval list \<Rightarrow> (string \<times> jsval) list \<Rightarrow> (string \<times> jsval) list" where
  "expectedAnswers_of [] expectedAnswers = expectedAnswers"
| "expectedAnswers_of (q # qs) expectedAnswers =
     (if \<not> js_truthy (js_get q ''id'') then expectedAnswers_of qs expectedAnswers
      else expectedAnswers_of qs
             (AList.update (js_String (js_get q ''id'')) (expected_answer q) expectedAnswers))"

definition js_lookup :: "(string \<times> jsval) list \<Rightarrow> string \<Rightarrow> jsval" where
  "js_lookup obj key = (case map_of obj key of Some v \<Rightarrow> v | None \<Rightarrow> JUndefined)"

text \<open>
  The correctness test shared by \<open>solveWorld\<close> and \<open>calculateSolverStats\<close>:
  \<open>if (provided && typeof provided === 'object' && 'value' in provided) provided =
  provided.value\<close>, then \<open>expected !== undefined && provided !== undefined &&
  String(provided).trim().toLowerCase() === String(expected).trim().toLowerCase()\<close>.
\<close>

definition unwrap_value :: "jsval \<Rightarrow> jsval" where
  "unwrap_value provided =
     (if js_truthy provided \<and> typeof_object provided \<and> js_in ''value'' provided
      then js_get provided ''value'' else provided)"

definition normalized :: "jsval \<Rightarrow> string" where
  "normalized v = toLowerCase (trim (js_String v))"

definition isCorrect :: "jsval \<Rightarrow> jsval \<Rightarrow> bool" where
  "isCorrect expected answer =
     (let provided = unwrap_value answer
      in expected \<noteq> JUndefined \<and> provided \<noteq> JUndefined
         \<and> normalized provided = normalized expected)"

text \<open>\<open>Math.round\<close> rounds to the nearest integer, halves upwards.\<close>

definition Math_round :: "real \<Rightarrow> int" where
  "Math_round x = \<lfloor>x + 1 / 2\<rfloor>"

record solver_results =
  total_questions :: nat
  total_correct_answers :: nat
  error_count :: int
  score_percentage :: int
  breakdown :: "(string \<times> bool) list"

record solution_record =
  score :: int
  raw_responses :: "(string \<times> jsval) list"
  results :: solver_results

text \<open>
  The loop over \<open>Object.entries(solverOutput)\<close> in \<open>solveWithModel\<close>; \<open>solverOutput\<close> is
  the solver's \<open>solutions\<close> object, one parsed reply or failure record per question id.
\<close>

definition score_entry :: "(string \<times> jsval) list \<Rightarrow> string \<times> jsval
    \<Rightarrow> (string \<times> jsval) list \<times> (string \<times> bool) list \<times> nat
    \<Rightarrow> (string \<times> jsval) list \<times> (string \<times> bool) list \<times> nat" where
  "score_entry expectedAnswers entry acc =
     (case (entry, acc) of ((qId, data), (rawResponses, cleanedBreakdown, correct)) \<Rightarrow>
        let expected = js_lookup expectedAnswers qId;
            ok = isCorrect expected (js_get data ''answer'')
        in (AList.update qId
              (JObj [(''answer'', coalesce (js_get data ''answer'') data),
                     (''explanation'',
                        js_or (js_get data ''explanation'') (JStr ''No explanation provided''))])
              rawResponses,
            AList.update qId ok cleanedBreakdown,
            if ok then correct + 1 else correct))"

definition solveWithModel :: "jsval list \<Rightarrow> (string \<times> jsval) list \<Rightarrow> solution_record" where
  "solveWithModel worldQuestions solverOutput =
     (let expectedAnswers = expectedAnswers_of worldQuestions [];
          (rawResponses, cleanedBreakdown, correct) =
             fold (score_entry expectedAnswers) solverOutput ([], [], 0);
          totalQuestions = length worldQuestions;
          scorePercentage =
            (if totalQuestions = 0 then 0
             else Math_round (real correct / real totalQuestions * 100))
      in \<lparr>score = scorePercentage, raw_responses = rawResponses,
          results =
            \<lparr>total_questions = totalQuestions, total_correct_answers = correct,
             error_count = int totalQuestions - int correct,
             score_percentage = scorePercentage, breakdown = cleanedBreakdown\<rparr>\<rparr>)"

text \<open>\<open>solveWorld\<close> refuses a world without questions, then scores each model's output.\<close>

definition solveWorld :: "jsval list \<Rightarrow> (string \<times> (string \<times> jsval) list) list
    \<Rightarrow> (string \<times> solution_record) list completion" where
  "solveWorld worldQuestions outputs =
     (if worldQuestions = [] then Throw (js_Error ''World has no questions - nothing to solve'')
      else Normal (fold (\<lambda>(apiName, solverOutput) resultsByModel.
                     AList.update apiName (solveWithModel worldQuestions solverOutput)
                       resultsByModel) outputs []))"

section \<open>Leaderboard statistics (\<open>calculateSolverStats\<close>)\<close>

text \<open>
  One row of the query: the model, the stored raw responses (\<open>Object.entries\<close> of
  \<open>raw_responses || {}\<close>) and the questions of its world (\<open>world_info.questions || []\<close>).
\<close>

record solution =
  model :: string
  world_id :: nat
  s_raw_responses :: "(string \<times> jsval) list"
  s_questions :: "jsval list"

record model_stats =
  total_attempts :: nat
  correct_answers :: nat

text \<open>
  The loop over the responses of one solution. A response whose question id is not an own
  property of \<open>expectedAnswers\<close> is skipped by \<open>continue\<close>.
\<close>

definition count_response :: "(string \<times> jsval) list \<Rightarrow> string \<times> jsval \<Rightarrow> model_stats
    \<Rightarrow> model_stats" where
  "count_response expectedAnswers response data =
     (case response of (qId, responseData) \<Rightarrow>
        if qId \<notin> set (map fst expectedAnswers) then data
        else
          let data1 = data\<lparr>total_attempts := total_attempts data + 1\<rparr>;
              expected = js_lookup expectedAnswers qId
          in if isCorrect expected (js_get responseData ''answer'')
             then data1\<lparr>correct_answers := correct_answers data1 + 1\<rparr>
             else data1)"

definition count_solution :: "solution \<Rightarrow> (string \<times> model_stats) list
    \<Rightarrow> (string \<times> model_stats) list" where
  "count_solution solution modelStats =
     (let expectedAnswers = expectedAnswers_of (s_questions solution) [];
          data0 = (case map_of modelStats (model solution) of
                     Some d \<Rightarrow> d
                   | None \<Rightarrow> \<lparr>total_attempts = 0, correct_answers = 0\<rparr>)
      in AList.update (model solution)
           (fold (count_response expectedAnswers) (s_raw_responses solution) data0) modelStats)"

text \<open>
  The rows: percentages and the Wilson interval, as numbers (the source prints each with
  \<open>toFixed(2)\<close>; the numbers are modelled as exact reals, before printing). The sorting of
  the rows, \<open>beats_next_percent\<close> and the per-world breakdown \<open>detailedStats\<close> are left out;
  none of them changes a row's counts or interval.
\<close>

record stats_row =
  row_model :: string
  row_total_attempts :: nat
  row_correct_answers :: nat
  percent_correct :: real
  ci_lower :: real
  ci_upper :: real
  ci_margin :: real

definition stats_row_of :: "string \<Rightarrow> model_stats \<Rightarrow> stats_row" where
  "stats_row_of m data =
     (if total_attempts data = 0 then
        \<lparr>row_model = m, row_total_attempts = 0, row_correct_answers = 0, percent_correct = 0,
         ci_lower = 0, ci_upper = 0, ci_margin = 0\<rparr>
      else
        let z = 1.96;
            n = real (total_attempts data);
            p = real (correct_answers data) / n;
            denom = 1 + (z ^ 2) / n;
            center = (p + (z ^ 2) / (2 * n)) / denom;
            margin = (z * sqrt ((p * (1 - p)) / n + (z ^ 2) / (4 * n ^ 2))) / denom;
            lower = max 0 (center - margin);
            upper = min 1 (center + margin)
        in \<lparr>row_model = m, row_total_attempts = total_attempts data,
            row_correct_answers = correct_answers data, percent_correct = p * 100,
            ci_lower = lower * 100, ci_upper = upper * 100, ci_margin = margin * 100\<rparr>)"

definition calculateSolverStats :: "solution list \<Rightarrow> stats_row list" where
  "calculateSolverStats solutions =
     map (\<lambda>(m, data). stats_row_of m data) (fold count_solution solutions [])"

text \<open>The Wilson score interval in the words of the specification.\<close>

definition wilson_center :: "real \<Rightarrow> real \<Rightarrow> real \<Rightarrow> real" where
  "wilson_center z n p = (p + z\<^sup>2 / (2 * n)) / (1 + z\<^sup>2 / n)"

definition wilson_margin :: "real \<Rightarrow> real \<Rightarrow> real \<Rightarrow> real" where
  "wilson_margin z n p = z * sqrt (p * (1 - p) / n + z\<^sup>2 / (4 * n\<^sup>2)) / (1 + z\<^sup>2 / n)"


section \<open>Auxiliary notions used in the statements\<close>

subsection \<open>A one-question world\<close>

text \<open>
  The world of the specification's scenarios A and B: one question \<open>q1\<close>, a creator
  program whose answer is \<open>creatorValue\<close> and one validator program whose answer is
  \<open>validatorValue\<close>; \<open>scenario_outcome\<close> is the outcome expected of the validation.
\<close>

definition scenario_question :: jsval where
  "scenario_question =
     JObj [(''id'', JStr ''q1''), (''text'', JStr ''What is 2 + 2?''), (''parameters'', JObj []),
           (''validator_fn'', JStr ''function getAnswer(p) { return new Simulation().run(p); }'')]"

definition constant_simulation :: "jsval \<Rightarrow> simulation" where
  "constant_simulation v = \<lparr>getAnswer = (\<lambda>fnCode params. Normal v), run = (\<lambda>params. Normal v)\<rparr>"

definition scenario_env :: "jsval \<Rightarrow> jsval \<Rightarrow> env" where
  "scenario_env creatorValue validatorValue =
     \<lparr>evalFn = (\<lambda>s. Normal JUndefined),
      loadWorld = (\<lambda>src. Normal (Some (constant_simulation creatorValue))),
      loadValidator = (\<lambda>src. Normal (Some (constant_simulation validatorValue)))\<rparr>"

definition scenario_world :: dbRecord where
  "scenario_world =
     \<lparr>world_name = ''Sums'', creator = ''creator'', world_code = Some ''class Simulation {}'',
      world_questions = [scenario_question],
      validation_codes = CodeObject [''class Simulation {}''] [''v1'']\<rparr>"

definition scenario_entry :: "jsval \<Rightarrow> run_result" where
  "scenario_entry v =
     \<lparr>r_question = JStr ''What is 2 + 2?'', r_parameters = JObj [], r_result = v,
      r_error = JUndefined\<rparr>"

definition scenario_outcome :: "jsval \<Rightarrow> jsval \<Rightarrow> validation_outcome" where
  "scenario_outcome creatorValue validatorValue =
     (let ok = (JSON_stringify creatorValue = JSON_stringify validatorValue);
          summary = \<lparr>total_count = 1, agreed = (if ok then 1 else 0),
                     percentage = Some (if ok then 100 else 0)\<rparr>
      in \<lparr>o_worldName = ''Sums'', o_modelName = ''creator'', o_success = ok,
          o_error = JUndefined, o_agreement = Some summary,
          o_comparisonResults =
            Some \<lparr>c_worldName = ''Sums'', c_modelName = ''creator'',
                  c_questions =
                    [(''q1'', \<lparr>c_question = JStr ''What is 2 + 2?'', creatorResult = creatorValue,
                              c_validatorResults =
                                [\<lparr>e_validatorId = 1, e_validatorModel = ''v1'',
                                  e_result = validatorValue, e_error = JUndefined,
                                  matches = ok\<rparr>],
                              agreement = ok\<rparr>)],
                  validatorAgreement = summary\<rparr>,
          o_agreedAnswers =
            (if ok then Some [(''q1'', \<lparr>a_question = JStr ''What is 2 + 2?'',
                                        expectedResult = creatorValue\<rparr>)]
             else None),
          o_creatorResults = Some [(''q1'', scenario_entry creatorValue)],
          o_validatorResults =
            [\<lparr>validatorId = 1, validatorModel = ''v1'',
              vr_results = Some [(''q1'', scenario_entry validatorValue)],
              vr_error = JUndefined\<rparr>]\<rparr>)"







subsection \<open>A question whose parameter cannot be evaluated\<close>

text \<open>
  A question with a parameter string that contains \<open>() =>\<close> and is therefore evaluated, and
  a host evaluation that throws the value \<open>thrown\<close>.
\<close>

definition null_throwing_question :: jsval where
  "null_throwing_question =
     JObj [(''id'', JStr ''q0''), (''text'', JStr ''How long is the list?''),
           (''parameters'', JObj [(''data'', JStr ''(() => { throw null })()'')]),
           (''validator_fn'', JStr ''function getAnswer(p) { return p.data.length; }'')]"

definition throwing_evalFn :: "jsval \<Rightarrow> string \<Rightarrow> jsval completion" where
  "throwing_evalFn thrown s = Throw thrown"

subsection \<open>Notions for the scorer and the leaderboard\<close>

text \<open>
  Whether the stored answer \<open>data.answer\<close> for question \<open>qId\<close> is correct; the ids of the
  questions of a world (those with a truthy id, as strings); the statistics entry of a model,
  zero when the model has none.
\<close>

definition answer_ok :: "(string \<times> jsval) list \<Rightarrow> string \<Rightarrow> jsval \<Rightarrow> bool" where
  "answer_ok expectedAnswers qId data =
     isCorrect (js_lookup expectedAnswers qId) (js_get data ''answer'')"

definition question_ids :: "jsval list \<Rightarrow> string set" where
  "question_ids qs =
     set (map (\<lambda>q. js_String (js_get q ''id'')) (filter (\<lambda>q. js_truthy (js_get q ''id'')) qs))"

definition stats_of :: "(string \<times> model_stats) list \<Rightarrow> string \<Rightarrow> model_stats" where
  "stats_of modelStats m =
     (case map_of modelStats m of Some d \<Rightarrow> d | None \<Rightarrow> \<lparr>total_attempts = 0, correct_answers = 0\<rparr>)"

text \<open>
  A world with three questions, a solver output that answers \<open>q1\<close> and an id \<open>q9\<close> the
  world does not have, and a stored solution with answers for \<open>q1\<close> and \<open>q9\<close>.
\<close>

definition scoring_questions :: "jsval list" where
  "scoring_questions =
     [JObj [(''id'', JStr ''q1''), (''text'', JStr ''What is 2 + 2?''), (''expectedAnswer'', JNum 4)],
      JObj [(''id'', JStr ''q2''), (''text'', JStr ''Capital of France?''),
            (''expectedAnswer'', JStr ''Paris'')],
      JObj [(''id'', JStr ''q3''), (''text'', JStr ''Is 7 prime?''), (''expectedAnswer'', JBool True)]]"

definition scoring_output :: "(string \<times> jsval) list" where
  "scoring_output =
     [(''q1'', JObj [(''answer'', JStr ''4''), (''explanation'', JStr ''2 + 2 = 4'')]),
      (''q9'', JObj [(''answer'', JObj [(''value'', JStr ''  PARIS '')])])]"

definition stray_solution :: solution where
  "stray_solution =
     \<lparr>model = ''model-a'', world_id = 7,
      s_raw_responses =
        [(''q1'', JObj [(''answer'', JStr ''4''), (''explanation'', JStr ''2 + 2 = 4'')]),
         (''q9'', JObj [(''answer'', JStr ''Paris''), (''explanation'', JStr ''a guess'')])],
      s_questions = scoring_questions\<rparr>"


subsection \<open>Notions for reading serialised values back\<close>

text \<open>
  A plain value is a JSON value: \<open>null\<close>, a boolean, a number, a string, an array of plain
  values or an object whose property values are plain. \<open>plain_text\<close> is its serialisation.
\<close>

fun plain :: "jsval \<Rightarrow> bool" where
  "plain JUndefined = False"
| "plain (JFun src) = False"
| "plain JNull = True"
| "plain (JBool b) = True"
| "plain (JNum n) = True"
| "plain (JStr s) = True"
| "plain (JArr xs) = list_all plain xs"
| "plain (JObj ps) = list_all (\<lambda>p. plain (snd p)) ps"

fun plain_text :: "jsval \<Rightarrow> string" where
  "plain_text (JArr xs) = ''['' @ join '','' (map plain_text xs) @ '']''"
| "plain_text (JObj ps) =
     ''{'' @ join '','' (map (\<lambda>p. QuoteJSONString (fst p) @ '':'' @ plain_text (snd p)) ps) @ ''}''"
| "plain_text v = (case JSON_stringify v of Some s \<Rightarrow> s | None \<Rightarrow> [])"

text \<open>
  Decimal digits, and what may follow a serialised number (nothing, or a character that
  is not a digit).
\<close>

definition is_digit :: "char \<Rightarrow> bool" where
  "is_digit c = (48 \<le> (of_char c :: nat) \<and> (of_char c :: nat) \<le> 57)"

definition follows :: "string \<Rightarrow> bool" where
  "follows r = (case r of [] \<Rightarrow> True | c # cs \<Rightarrow> \<not> is_digit c)"

text \<open>
  Reading one character of a quoted string back: \<open>None\<close> at the closing quote or at an
  escape that \<open>JSON.stringify\<close> never writes.
\<close>

definition hex_val :: "char \<Rightarrow> nat" where
  "hex_val h = length (takeWhile (\<lambda>x. x \<noteq> h) ''0123456789abcdef'')"

fun unquote_char :: "string \<Rightarrow> (char \<times> string) option" where
  "unquote_char [] = None"
| "unquote_char (c # rest) =
     (if c = CHR 0x22 then None
      else if c \<noteq> CHR 0x5C then Some (c, rest)
      else (case rest of
              [] \<Rightarrow> None
            | e # rest' \<Rightarrow>
                if e = CHR 0x22 then Some (CHR 0x22, rest')
                else if e = CHR 0x5C then Some (CHR 0x5C, rest')
                else if e = CHR ''b'' then Some (CHR 0x08, rest')
                else if e = CHR ''f'' then Some (CHR 0x0C, rest')
                else if e = CHR ''n'' then Some (CHR 0x0A, rest')
                else if e = CHR ''r'' then Some (CHR 0x0D, rest')
                else if e = CHR ''t'' then Some (CHR 0x09, rest')
                else if e = CHR ''u'' then
                  (case rest' of
                     a # b # h1 # h2 # rest'' \<Rightarrow>
                       Some (char_of (16 * hex_val h1 + hex_val h2), rest'')
                   | _ \<Rightarrow> None)
                else None))"

text \<open>The kind of a value, and the kind announced by the first character of a text.\<close>

fun kind :: "jsval \<Rightarrow> nat" where
  "kind JNull = 0"
| "kind (JBool b) = 1"
| "kind (JNum n) = 2"
| "kind (JStr s) = 3"
| "kind (JArr xs) = 4"
| "kind (JObj ps) = 5"
| "kind v = 6"

definition lead_kind :: "char \<Rightarrow> nat" where
  "lead_kind c =
     (if c = CHR ''n'' then 0
      else if c = CHR ''t'' \<or> c = CHR ''f'' then 1
      else if c = CHR ''-'' \<or> is_digit c then 2
      else if c = CHR 0x22 then 3
      else if c = CHR ''['' then 4
      else if c = CHR ''{'' then 5
      else 6)"

text \<open>
  The run of the only validator when its answer to \<open>q1\<close> is \<open>v\<close>, and the \<open>matches\<close> flag
  of a comparison that did not throw.
\<close>

definition scenario_validator :: "jsval \<Rightarrow> validator_run" where
  "scenario_validator v =
     \<lparr>validatorId = 1, validatorModel = ''v1'', vr_results = Some [(''q1'', scenario_entry v)],
      vr_error = JUndefined\<rparr>"

definition matches_of :: "validator_entry completion \<Rightarrow> bool option" where
  "matches_of c = (case c of Normal e \<Rightarrow> Some (matches e) | Throw err \<Rightarrow> None)"

text \<open>
  The entry that the loop of \<open>_runSimulation\<close> stores for one question when its \<open>catch\<close>
  block completes: the entry built by the \<open>try\<close> block, or the error entry.
\<close>

definition question_entry :: "(string \<Rightarrow> jsval completion) \<Rightarrow> simulation \<Rightarrow> bool \<Rightarrow> jsval
    \<Rightarrow> run_result" where
  "question_entry ev SimulationClass allowFallback question =
     (case run_question ev SimulationClass allowFallback question of
        Normal entry \<Rightarrow> entry
      | Throw error \<Rightarrow>
          \<lparr>r_question = js_get question ''text'',
           r_parameters = js_or (js_get question ''parameters'') (JObj []),
           r_result = JUndefined,
           r_error = js_get error ''message''\<rparr>)"

section \<open>Properties of the quality score\<close>

lemma Math_max_eq: "scores \<noteq> [] \<Longrightarrow> Math_max scores = Max (set scores)"
proof (cases scores)
  case (Cons x xs)
  then show ?thesis using Max.set_eq_fold [of x xs] by simp
qed simp

lemma Math_min_eq: "scores \<noteq> [] \<Longrightarrow> Math_min scores = Min (set scores)"
proof (cases scores)
  case (Cons x xs)
  then show ?thesis using Min.set_eq_fold [of x xs] by simp
qed simp

lemma set_index_pairs: "set (index_pairs n) = {(i, j). i < j \<and> j < n}"
proof (rule set_eqI)
  fix p :: "nat \<times> nat"
  obtain a b where p: "p = (a, b)" by (cases p)
  have "(a, b) \<in> set (index_pairs n) \<longleftrightarrow> a < b \<and> b < n"
  proof
    assume "(a, b) \<in> set (index_pairs n)"
    then show "a < b \<and> b < n" by (auto simp: index_pairs_def)
  next
    assume ab: "a < b \<and> b < n"
    then have "a < n - 1" by arith
    then have 1: "a \<in> set [0 ..< n - 1]" by simp
    from ab have 2: "(a, b) \<in> set (map (Pair a) [a + 1 ..< n])" by simp
    from 1 2 show "(a, b) \<in> set (index_pairs n)"
      unfolding index_pairs_def set_concat set_map by (rule_tac UN_I [where a = "map (Pair a) [a + 1 ..< n]"]) simp_all
  qed
  then show "p \<in> set (index_pairs n) \<longleftrightarrow> p \<in> {(i, j). i < j \<and> j < n}"
    by (simp add: p)
qed

lemma distinct_index_pairs: "distinct (index_pairs n)"
proof -
  have inj: "inj_on (\<lambda>i. map (Pair i) [i + 1 ..< n]) (set [0 ..< n - 1])"
  proof (rule inj_onI)
    fix x y
    assume x: "x \<in> set [0 ..< n - 1]" and y: "y \<in> set [0 ..< n - 1]"
      and eq: "map (Pair x) [x + 1 ..< n] = map (Pair y) [y + 1 ..< n]"
    from x have "(x, x + 1) \<in> set (map (Pair x) [x + 1 ..< n])" by simp
    with eq have "(x, x + 1) \<in> set (map (Pair y) [y + 1 ..< n])" by simp
    then show "x = y" by auto
  qed
  show ?thesis
    unfolding index_pairs_def
  proof (rule distinct_concat)
    show "distinct (map (\<lambda>i. map (Pair i) [i + 1 ..< n]) [0 ..< n - 1])"
      using inj by (simp add: distinct_map)
  qed (auto simp: distinct_map inj_on_def)
qed

lemma pair_fold_gen:
  "fold (\<lambda>(i, j) (pairSum, pairCount). (pairSum + \<bar>scores ! i - scores ! j\<bar>, pairCount + 1)) ps (s, c)
     = (s + sum_list (map (\<lambda>(i, j). \<bar>scores ! i - scores ! j\<bar>) ps), c + length ps)"
  by (induction ps arbitrary: s c) (auto simp: algebra_simps)

lemma pair_loop_eq:
  "pair_loop scores =
     (\<Sum>(i, j) \<in> {(i, j). i < j \<and> j < length scores}. \<bar>scores ! i - scores ! j\<bar>,
      card {(i, j). i < j \<and> j < length scores})"
  unfolding pair_loop_def pair_fold_gen
  using distinct_index_pairs [of "length scores"] set_index_pairs [of "length scores"]
  by (simp add: sum_list_distinct_conv_sum_set distinct_card [symmetric])

lemma pair_count_pos: "2 \<le> n \<Longrightarrow> 0 < card {(i, j). i < j \<and> j < (n::nat)}"
proof -
  assume n: "2 \<le> n"
  have fin: "finite {(i, j). i < j \<and> j < n}"
    using set_index_pairs [of n, symmetric] by (metis List.finite_set)
  have "(0, 1) \<in> {(i, j). i < j \<and> j < n}" using n by auto
  then show ?thesis using fin by (metis card_gt_0_iff empty_iff)
qed

text \<open>
  Claim C7. With at least two scores and a non-zero maximum \<open>Q\<close>, \<open>quality\<close> returns
  \<open>clamp01((0.4 * spread + 0.4 * pairAvg + 0.2 * distinct) / Q)\<close>, where \<open>spread\<close> is maximum minus
  minimum, \<open>pairAvg\<close> the mean of all pairwise absolute differences and \<open>distinct\<close> the
  number of distinct values minus one; fewer than two scores give \<open>0\<close>; and
  \<open>quality([20, 80], 100) = 0.482\<close>.
\<close>

theorem quality_formula:
  "(length scores < 2 \<longrightarrow> quality scores Q = Some 0) \<and>
   (2 \<le> length scores \<and> Q \<noteq> 0 \<longrightarrow> quality scores Q = Some (quality_spec scores Q)) \<and>
   quality [20, 80] 100 = Some 0.482"
proof (intro conjI impI)
  assume "length scores < 2"
  then have "length scores = 0 \<or> length scores = 1" by arith
  then show "quality scores Q = Some 0" by (auto simp: quality_def)
next
  assume h: "2 \<le> length scores \<and> Q \<noteq> 0"
  then have ne: "scores \<noteq> []" by auto
  from h have len: "length scores \<noteq> 0" "length scores \<noteq> 1" by auto
  from h have pos: "0 < card {(i, j). i < j \<and> j < length scores}"
    by (simp add: pair_count_pos)
  show "quality scores Q = Some (quality_spec scores Q)"
    unfolding quality_def quality_spec_def pairAvg_spec_def clamp01_def Let_def pair_loop_eq
      Math_max_eq [OF ne] Math_min_eq [OF ne] prod.case
    using h len pos by (simp only: if_False if_True)
next
  have ip: "index_pairs (length [20::real, 80]) = [(0, 1)]"
    by code_simp
  have "pair_loop [20, 80] = (60, 1)"
    unfolding pair_loop_def ip by simp
  then show "quality [20, 80] 100 = Some 0.482"
    by (simp add: quality_def Let_def)
qed

theorem quality_formula_witness:
  "quality [] 100 = Some 0 \<and> quality [50] 100 = Some 0 \<and>
   quality [20, 80, 50] 100 = Some (quality_spec [20, 80, 50] 100) \<and>
   quality [20, 80] 100 = Some 0.482"
  using quality_formula [of "[]" 100] quality_formula [of "[50]" 100]
    quality_formula [of "[20, 80, 50]" 100]
  by simp

section \<open>Properties of the consensus engine\<close>

subsection \<open>The comparison loops\<close>

lemma compare_validator_ids:
  "compare_validator creatorRes questionId v = Normal e \<Longrightarrow>
     e_validatorId e = validatorId v \<and> e_validatorModel e = validatorModel v"
  by (auto simp: compare_validator_def Let_def split: if_splits option.splits)

lemma compare_question_inv:
  "compare_question creatorRes questionId vs q = Normal q' \<Longrightarrow>
     \<exists>es. map (compare_validator creatorRes questionId) vs = map Normal es
        \<and> c_validatorResults q' = c_validatorResults q @ es
        \<and> agreement q' = (agreement q \<and> list_all matches es)
        \<and> creatorResult q' = creatorResult q \<and> c_question q' = c_question q"
proof (induction vs arbitrary: q)
  case Nil
  then show ?case by simp
next
  case (Cons v vs)
  from Cons.prems obtain e where
    e: "compare_validator creatorRes questionId v = Normal e"
    by (auto split: completion.splits)
  let ?q1 = "if matches e then q\<lparr>c_validatorResults := c_validatorResults q @ [e]\<rparr>
             else q\<lparr>c_validatorResults := c_validatorResults q @ [e], agreement := False\<rparr>"
  from Cons.prems e have "compare_question creatorRes questionId vs ?q1 = Normal q'"
    by simp
  from Cons.IH [OF this] obtain es where
    es: "map (compare_validator creatorRes questionId) vs = map Normal es"
      "c_validatorResults q' = c_validatorResults ?q1 @ es"
      "agreement q' = (agreement ?q1 \<and> list_all matches es)"
      "creatorResult q' = creatorResult ?q1" "c_question q' = c_question ?q1"
    by blast
  show ?case
  proof (intro exI [of _ "e # es"] conjI)
    show "map (compare_validator creatorRes questionId) (v # vs) = map Normal (e # es)"
      using e es(1) by simp
    show "c_validatorResults q' = c_validatorResults q @ e # es"
      using es(2) by simp
    show "agreement q' = (agreement q \<and> list_all matches (e # es))"
      using es(3) by auto
    show "creatorResult q' = creatorResult q" using es(4) by simp
    show "c_question q' = c_question q" using es(5) by simp
  qed
qed

lemma compare_loop_inv:
  "compare_loop cr vrs ids qs = Normal qs' \<Longrightarrow> distinct (map fst qs) \<Longrightarrow>
     distinct (map fst qs') \<and> fst ` set qs' = fst ` set qs \<union> set ids
     \<and> (\<forall>qid. qid \<notin> set ids \<longrightarrow> map_of qs' qid = map_of qs qid)
     \<and> (\<forall>qid \<in> set ids. \<exists>creatorRes q. map_of cr qid = Some creatorRes
            \<and> compare_question creatorRes qid vrs (question_init creatorRes) = Normal q
            \<and> map_of qs' qid = Some q)"
proof (induction ids arbitrary: qs)
  case Nil
  then show ?case by simp
next
  case (Cons questionId ids)
  from Cons.prems(1) obtain creatorRes where
    c: "map_of cr questionId = Some creatorRes"
    by (auto split: option.splits)
  from Cons.prems(1) c obtain q where
    q: "compare_question creatorRes questionId vrs (question_init creatorRes) = Normal q"
    by (auto split: completion.splits)
  let ?qs1 = "AList.update questionId q qs"
  from Cons.prems(1) c q have step: "compare_loop cr vrs ids ?qs1 = Normal qs'"
    by simp
  have d1: "distinct (map fst ?qs1)" using Cons.prems(2) by (rule distinct_update)
  note IH = Cons.IH [OF step d1]
  show ?case
  proof (intro conjI allI impI ballI)
    show "distinct (map fst qs')" using IH by blast
    show "fst ` set qs' = fst ` set qs \<union> set (questionId # ids)"
      using IH by (auto simp: dom_update)
  next
    fix qid assume "qid \<notin> set (questionId # ids)"
    then show "map_of qs' qid = map_of qs qid"
      using IH by (simp add: update_conv')
  next
    fix qid assume m: "qid \<in> set (questionId # ids)"
    show "\<exists>creatorRes q. map_of cr qid = Some creatorRes
            \<and> compare_question creatorRes qid vrs (question_init creatorRes) = Normal q
            \<and> map_of qs' qid = Some q"
    proof (cases "qid \<in> set ids")
      case True
      then show ?thesis using IH by blast
    next
      case False
      with m have eq: "qid = questionId" by simp
      from False IH have "map_of qs' qid = map_of ?qs1 qid" by blast
      then have "map_of qs' qid = Some q" using eq by (simp add: update_conv')
      then show ?thesis using c q eq by blast
    qed
  qed
qed

lemma count_agreed_eq:
  "count_agreed qs ids n =
     n + length (filter (\<lambda>qid. case map_of qs qid of Some q \<Rightarrow> agreement q | None \<Rightarrow> False) ids)"
  by (induction ids arbitrary: n) (auto split: option.splits)

lemma count_agreed_all:
  "(count_agreed qs ids 0 = length ids) =
     (\<forall>qid \<in> set ids. case map_of qs qid of Some q \<Rightarrow> agreement q | None \<Rightarrow> False)"
proof -
  let ?P = "\<lambda>qid. case map_of qs qid of Some q \<Rightarrow> agreement q | None \<Rightarrow> False"
  have "(length (filter ?P ids) = length ids) = (\<forall>qid \<in> set ids. ?P qid)"
    by (metis filter_True length_filter_less less_irrefl_nat filter_id_conv)
  then show ?thesis by (simp add: count_agreed_eq)
qed

lemma compare_all_result:
  assumes "compare_all this cr = Normal (cmp, this')"
  shows "\<exists>qs. compare_loop cr (validatorResults this) (map fst cr) [] = Normal qs
          \<and> c_questions cmp = qs
          \<and> total_count (validatorAgreement cmp) = length cr
          \<and> agreed (validatorAgreement cmp) = count_agreed qs (map fst cr) 0
          \<and> this' = this\<lparr>success := (count_agreed qs (map fst cr) 0 = length cr)\<rparr>"
  using assms by (auto simp: compare_all_def Let_def split: completion.splits)

lemma compare_all_questions:
  assumes "compare_all this cr = Normal (cmp, this')"
  shows "distinct (map fst (c_questions cmp))"
    and "fst ` set (c_questions cmp) = fst ` set cr"
    and "\<And>qid. qid \<in> fst ` set cr \<Longrightarrow>
           \<exists>creatorRes q. map_of cr qid = Some creatorRes
             \<and> compare_question creatorRes qid (validatorResults this) (question_init creatorRes)
                 = Normal q
             \<and> map_of (c_questions cmp) qid = Some q"
proof -
  from compare_all_result [OF assms] have
    loop: "compare_loop cr (validatorResults this) (map fst cr) [] = Normal (c_questions cmp)"
    by blast
  have d0: "distinct (map fst ([] :: (string \<times> question_cmp) list))" by simp
  note inv = compare_loop_inv [OF loop d0]
  show "distinct (map fst (c_questions cmp))" using inv by blast
  show "fst ` set (c_questions cmp) = fst ` set cr" using inv by simp
  fix qid assume "qid \<in> fst ` set cr"
  then have "qid \<in> set (map fst cr)" by simp
  with inv show "\<exists>creatorRes q. map_of cr qid = Some creatorRes
             \<and> compare_question creatorRes qid (validatorResults this) (question_init creatorRes)
                 = Normal q
             \<and> map_of (c_questions cmp) qid = Some q"
    by blast
qed

lemma compare_all_success:
  assumes "compare_all this cr = Normal (cmp, this')"
  shows "success this' =
           (agreed (validatorAgreement cmp) = total_count (validatorAgreement cmp))"
    and "success this' = (\<forall>(qid, q) \<in> set (c_questions cmp). agreement q)"
proof -
  from compare_all_result [OF assms] have
    tot: "total_count (validatorAgreement cmp) = length cr"
    and agr: "agreed (validatorAgreement cmp) = count_agreed (c_questions cmp) (map fst cr) 0"
    and st: "this' = this\<lparr>success := (count_agreed (c_questions cmp) (map fst cr) 0 = length cr)\<rparr>"
    by auto
  show "success this' =
           (agreed (validatorAgreement cmp) = total_count (validatorAgreement cmp))"
    using tot agr st by simp
  note d = compare_all_questions(1) [OF assms]
  note k = compare_all_questions(2) [OF assms]
  have "success this' =
          (\<forall>qid \<in> set (map fst cr).
              case map_of (c_questions cmp) qid of Some q \<Rightarrow> agreement q | None \<Rightarrow> False)"
    using st count_agreed_all [of "c_questions cmp" "map fst cr"] by simp
  also have "\<dots> = (\<forall>(qid, q) \<in> set (c_questions cmp). agreement q)"
  proof
    assume L: "\<forall>qid \<in> set (map fst cr).
              case map_of (c_questions cmp) qid of Some q \<Rightarrow> agreement q | None \<Rightarrow> False"
    show "\<forall>(qid, q) \<in> set (c_questions cmp). agreement q"
    proof (clarify)
      fix qid q assume m: "(qid, q) \<in> set (c_questions cmp)"
      then have "qid \<in> fst ` set cr" using k by force
      moreover from m d have "map_of (c_questions cmp) qid = Some q" by simp
      ultimately show "agreement q" using L by force
    qed
  next
    assume R: "\<forall>(qid, q) \<in> set (c_questions cmp). agreement q"
    show "\<forall>qid \<in> set (map fst cr).
              case map_of (c_questions cmp) qid of Some q \<Rightarrow> agreement q | None \<Rightarrow> False"
    proof
      fix qid assume "qid \<in> set (map fst cr)"
      then have "qid \<in> fst ` set (c_questions cmp)" using k by simp
      then obtain q where m: "(qid, q) \<in> set (c_questions cmp)" by force
      with d have "map_of (c_questions cmp) qid = Some q" by simp
      with m R show "case map_of (c_questions cmp) qid of Some q \<Rightarrow> agreement q | None \<Rightarrow> False"
        by auto
    qed
  qed
  finally show "success this' = (\<forall>(qid, q) \<in> set (c_questions cmp). agreement q)" .
qed

lemma compareResults_compare_all:
  assumes "compareResults E this = Normal (cmp, this')"
  shows "\<exists>this2 cr. creatorResults this2 = Some cr \<and> compare_all this2 cr = Normal (cmp, this')"
  using assms
  by (auto simp: compareResults_def split: completion.splits option.splits if_splits prod.splits)

lemma validate_outcome_cases:
  assumes "validateWorldFromDB E w = Normal out"
  shows "(\<not> o_success out \<and> o_agreement out = None \<and> o_comparisonResults out = None
            \<and> o_agreedAnswers out = None)
         \<or> (\<exists>this2 cr cmp this3. creatorResults this2 = Some cr
               \<and> compare_all this2 cr = Normal (cmp, this3)
               \<and> o_success out = success this3
               \<and> o_agreement out = Some (validatorAgreement cmp)
               \<and> o_comparisonResults out = Some cmp
               \<and> o_agreedAnswers out = getAgreedAnswers this3 (Some cmp)
               \<and> o_creatorResults out = creatorResults this3)"
proof -
  let ?st0 = "\<lparr>world = loadWorldFromDB w, creatorResults = None, validatorResults = [],
               success = False\<rparr>"
  have failed: "\<not> o_success out \<and> o_agreement out = None \<and> o_comparisonResults out = None
            \<and> o_agreedAnswers out = None"
    if "validation_failed w error = Normal out" for error
    using that by (auto simp: validation_failed_def split: if_splits)
  show ?thesis
  proof (cases "runWorldCode E ?st0")
    case (Throw error)
    with assms have "validation_failed w error = Normal out"
      by (simp add: validateWorldFromDB_def Let_def)
    then show ?thesis using failed by blast
  next
    case (Normal p1)
    obtain r1 this1 where p1: "p1 = (r1, this1)" by (cases p1)
    show ?thesis
    proof (cases "runValidatorCode E this1")
      case (Throw error)
      with assms Normal p1 have "validation_failed w error = Normal out"
        by (simp add: validateWorldFromDB_def Let_def)
      then show ?thesis using failed by blast
    next
      case N2: (Normal p2)
      obtain r2 this2 where p2: "p2 = (r2, this2)" by (cases p2)
      show ?thesis
      proof (cases "compareResults E this2")
        case (Throw error)
        with assms Normal p1 N2 p2 have "validation_failed w error = Normal out"
          by (simp add: validateWorldFromDB_def Let_def)
        then show ?thesis using failed by blast
      next
        case N3: (Normal p3)
        obtain cmp this3 where p3: "p3 = (cmp, this3)" by (cases p3)
        from assms Normal p1 N2 p2 N3 p3 have out:
          "out = \<lparr>o_worldName = worldName (loadWorldFromDB w),
                  o_modelName = modelName (loadWorldFromDB w),
                  o_success = success this3, o_error = JUndefined,
                  o_agreement = Some (validatorAgreement cmp),
                  o_comparisonResults = Some cmp,
                  o_agreedAnswers = getAgreedAnswers this3 (Some cmp),
                  o_creatorResults = creatorResults this3,
                  o_validatorResults = validatorResults this3\<rparr>"
          by (simp add: validateWorldFromDB_def Let_def)
        from N3 p3 compareResults_compare_all obtain thisc cr where
          "creatorResults thisc = Some cr" "compare_all thisc cr = Normal (cmp, this3)"
          by blast
        then show ?thesis using out by auto
      qed
    qed
  qed
qed

text \<open>
  Claim C1. For every validation run that produces a comparison, the outcome's \<open>success\<close>
  flag is true if and only if every question's \<open>agreement\<close> flag is true, and it equals
  \<open>agreed = total\<close>; a run that fails before the comparison reports \<open>success = false\<close>
  and has no comparison.
\<close>

theorem validation_success_iff_all_agreed:
  assumes "validateWorldFromDB E w = Normal out"
  shows "o_success out =
           (\<exists>cmp. o_comparisonResults out = Some cmp
              \<and> (\<forall>(qid, q) \<in> set (c_questions cmp). agreement q))
         \<and> (\<forall>cmp. o_comparisonResults out = Some cmp \<longrightarrow>
               o_success out =
                 (agreed (validatorAgreement cmp) = total_count (validatorAgreement cmp)))"
  using validate_outcome_cases [OF assms]
proof (elim disjE exE conjE)
  assume "\<not> o_success out" "o_comparisonResults out = None"
  then show ?thesis by simp
next
  fix this2 cr cmp this3
  assume c: "compare_all this2 cr = Normal (cmp, this3)"
    and s: "o_success out = success this3" and o: "o_comparisonResults out = Some cmp"
  from compare_all_success [OF c] s o show ?thesis by simp
qed

lemma fold_update_map_of:
  "distinct (map fst ps) \<Longrightarrow>
     map_of (fold (\<lambda>(k, v) acc. AList.update k (f v) acc) ps acc0) k =
       (case map_of ps k of Some v \<Rightarrow> Some (f v) | None \<Rightarrow> map_of acc0 k)"
proof (induction ps arbitrary: acc0)
  case Nil
  then show ?case by simp
next
  case (Cons p ps)
  obtain k0 v0 where p: "p = (k0, v0)" by (cases p)
  from Cons.prems p have d: "distinct (map fst ps)" and n: "k0 \<notin> fst ` set ps" by auto
  from n have none: "map_of ps k0 = None" by (simp add: map_of_eq_None_iff)
  show ?case
    using Cons.IH [OF d, of "AList.update k0 (f v0) acc0"] none
    by (auto simp: p update_conv' split: option.splits)
qed

lemma getAgreedAnswers_Some:
  assumes "compare_all this2 cr = Normal (cmp, this3)" and "success this3"
  shows "\<exists>answers. getAgreedAnswers this3 (Some cmp) = Some answers
           \<and> (\<forall>qid. map_of answers qid =
                 map_option (\<lambda>r. \<lparr>a_question = r_question r, expectedResult = r_result r\<rparr>)
                   (map_of cr qid))"
proof -
  let ?f = "\<lambda>data. \<lparr>a_question = c_question data, expectedResult = creatorResult data\<rparr>"
  let ?answers = "fold (\<lambda>(questionId, data) answers. AList.update questionId (?f data) answers)
                    (c_questions cmp) []"
  have g: "getAgreedAnswers this3 (Some cmp) = Some ?answers"
    using assms(2) by (simp add: getAgreedAnswers_def)
  note d = compare_all_questions(1) [OF assms(1)]
  note k = compare_all_questions(2) [OF assms(1)]
  have "map_of ?answers qid =
          map_option (\<lambda>r. \<lparr>a_question = r_question r, expectedResult = r_result r\<rparr>)
            (map_of cr qid)" for qid
  proof (cases "qid \<in> fst ` set cr")
    case True
    from compare_all_questions(3) [OF assms(1) True] obtain creatorRes q where
      c: "map_of cr qid = Some creatorRes"
      and q: "compare_question creatorRes qid (validatorResults this2) (question_init creatorRes)
                = Normal q"
      and m: "map_of (c_questions cmp) qid = Some q"
      by blast
    from compare_question_inv [OF q] have
      "creatorResult q = r_result creatorRes" "c_question q = r_question creatorRes"
      by (auto simp: question_init_def)
    then show ?thesis
      using fold_update_map_of [OF d, of ?f "[]" qid] c m by simp
  next
    case False
    then have "map_of cr qid = None" by (simp add: map_of_eq_None_iff)
    moreover from False k have "map_of (c_questions cmp) qid = None"
      by (simp add: map_of_eq_None_iff)
    ultimately show ?thesis
      using fold_update_map_of [OF d, of ?f "[]" qid] by simp
  qed
  with g show ?thesis by blast
qed

text \<open>
  Claim C3. The agreed answers of a validation run are absent (\<open>null\<close>) whenever \<open>success\<close>
  is false; when \<open>success\<close> is true they map every question id of the creator's results to
  the question text and, as \<open>expectedResult\<close>, the creator's value.
\<close>

theorem agreed_answers_only_on_success:
  assumes "validateWorldFromDB E w = Normal out"
  shows "(\<not> o_success out \<longrightarrow> o_agreedAnswers out = None)
         \<and> (o_success out \<longrightarrow>
              (\<exists>cr answers. o_creatorResults out = Some cr \<and> o_agreedAnswers out = Some answers
                 \<and> (\<forall>qid. map_of answers qid =
                       map_option (\<lambda>r. \<lparr>a_question = r_question r, expectedResult = r_result r\<rparr>)
                         (map_of cr qid))))"
  using validate_outcome_cases [OF assms]
proof (elim disjE exE conjE)
  assume "\<not> o_success out" "o_agreedAnswers out = None"
  then show ?thesis by simp
next
  fix this2 cr cmp this3
  assume c: "compare_all this2 cr = Normal (cmp, this3)"
    and cr: "creatorResults this2 = Some cr"
    and s: "o_success out = success this3"
    and a: "o_agreedAnswers out = getAgreedAnswers this3 (Some cmp)"
    and o: "o_creatorResults out = creatorResults this3"
  from compare_all_result [OF c] cr have cr3: "creatorResults this3 = Some cr" by auto
  show ?thesis
  proof (cases "success this3")
    case True
    from getAgreedAnswers_Some [OF c True] s a o cr3 True show ?thesis by auto
  next
    case False
    then show ?thesis using s a by (simp add: getAgreedAnswers_def)
  qed
qed

lemma scenario_A:
  "validateWorldFromDB (scenario_env (JNum 4) (JNum 4)) scenario_world
     = Normal (scenario_outcome (JNum 4) (JNum 4))"
  by code_simp

lemma scenario_B:
  "validateWorldFromDB (scenario_env (JNum 4) (JNum 5)) scenario_world
     = Normal (scenario_outcome (JNum 4) (JNum 5))"
  by code_simp

theorem validation_success_iff_all_agreed_witness:
  "o_success (scenario_outcome (JNum 4) (JNum 4))
   \<and> \<not> o_success (scenario_outcome (JNum 4) (JNum 5))
   \<and> o_agreement (scenario_outcome (JNum 4) (JNum 4))
       = Some \<lparr>total_count = 1, agreed = 1, percentage = Some 100\<rparr>
   \<and> o_agreement (scenario_outcome (JNum 4) (JNum 5))
       = Some \<lparr>total_count = 1, agreed = 0, percentage = Some 0\<rparr>"
  using validation_success_iff_all_agreed [OF scenario_A]
    validation_success_iff_all_agreed [OF scenario_B]
  by (simp add: scenario_outcome_def Let_def Number_toString_def digits.simps digit_char_def)

theorem agreed_answers_only_on_success_witness:
  "o_agreedAnswers (scenario_outcome (JNum 4) (JNum 5)) = None
   \<and> o_agreedAnswers (scenario_outcome (JNum 4) (JNum 4))
       = Some [(''q1'', \<lparr>a_question = JStr ''What is 2 + 2?'', expectedResult = JNum 4\<rparr>)]"
  using agreed_answers_only_on_success [OF scenario_A]
    agreed_answers_only_on_success [OF scenario_B]
  by (simp add: scenario_outcome_def Let_def Number_toString_def digits.simps digit_char_def)

subsection \<open>Questions missing on one side\<close>














section \<open>Properties of \<open>JSON.stringify\<close> on plain values\<close>

lemma JSON_stringify_plain: "plain v \<Longrightarrow> JSON_stringify v = Some (plain_text v)"
proof (induction v)
  case (JArr xs)
  then have "\<forall>x \<in> set xs. JSON_stringify x = Some (plain_text x)"
    by (simp add: list_all_iff)
  then have "map (\<lambda>x. case JSON_stringify x of None \<Rightarrow> ''null'' | Some s \<Rightarrow> s) xs
               = map plain_text xs"
    by (intro map_cong) simp_all
  then show ?case by (simp only: JSON_stringify.simps plain_text.simps)
next
  case (JObj ps)
  have "JSON_stringify (snd p) = Some (plain_text (snd p))" if "p \<in> set ps" for p
  proof -
    obtain k v where p: "p = (k, v)" by (cases p)
    from that JObj.prems p have "plain v" by (auto simp: list_all_iff)
    moreover from that p have "v \<in> Basic_BNFs.snds p" by simp
    ultimately show ?thesis using JObj.IH [OF that] p by simp
  qed
  then have "concat (map (\<lambda>p. case JSON_stringify (snd p) of None \<Rightarrow> []
                            | Some s \<Rightarrow> [QuoteJSONString (fst p) @ '':'' @ s]) ps)
             = map (\<lambda>p. QuoteJSONString (fst p) @ '':'' @ plain_text (snd p)) ps"
    by (induction ps) simp_all
  then show ?case by (simp only: JSON_stringify.simps plain_text.simps)
qed simp_all

subsection \<open>Digits\<close>

lemma digit_char_code: "d < 10 \<Longrightarrow> (of_char (digit_char d) :: nat) = 48 + d"
proof -
  have "\<forall>d \<in> set [0 ..< 10]. (of_char (digit_char d) :: nat) = 48 + d"
    by code_simp
  then show "d < 10 \<Longrightarrow> (of_char (digit_char d) :: nat) = 48 + d" by simp
qed

lemma digits_all: "list_all is_digit (digits n)"
proof (induction n rule: digits.induct)
  case (1 n)
  show ?case
  proof (cases "n < 10")
    case True
    then show ?thesis by (subst digits.simps) (simp add: is_digit_def digit_char_code)
  next
    case False
    have "n mod 10 < 10" by simp
    then have "is_digit (digit_char (n mod 10))" by (simp add: is_digit_def digit_char_code)
    with 1 False show ?thesis by (subst digits.simps) simp
  qed
qed

lemma digits_nonempty: "digits n \<noteq> []"
  by (subst digits.simps) simp

lemma digits_value:
  "foldl (\<lambda>a c. 10 * a + ((of_char c :: nat) - 48)) 0 (digits n) = n"
proof (induction n rule: digits.induct)
  case (1 n)
  show ?case
  proof (cases "n < 10")
    case True
    then show ?thesis by (subst digits.simps) (simp add: digit_char_code)
  next
    case False
    have "n mod 10 < 10" by simp
    then have "(of_char (digit_char (n mod 10)) :: nat) - 48 = n mod 10"
      by (simp add: digit_char_code)
    with 1 False show ?thesis by (subst digits.simps) simp
  qed
qed

lemma digits_inj: "digits n = digits m \<Longrightarrow> n = m"
  by (metis digits_value)

lemma takeWhile_prefix:
  "list_all P xs \<Longrightarrow> (case r of [] \<Rightarrow> True | c # cs \<Rightarrow> \<not> P c) \<Longrightarrow> takeWhile P (xs @ r) = xs"
  by (induction xs) (auto split: list.splits)

lemma digits_split:
  assumes "digits n @ r = digits m @ r'" and "follows r" and "follows r'"
  shows "n = m \<and> r = r'"
proof -
  have "takeWhile is_digit (digits n @ r) = digits n"
    using digits_all assms(2) unfolding follows_def by (rule takeWhile_prefix)
  moreover have "takeWhile is_digit (digits m @ r') = digits m"
    using digits_all assms(3) unfolding follows_def by (rule takeWhile_prefix)
  ultimately have d: "digits n = digits m" using assms(1) by simp
  with assms(1) have "r = r'" by simp
  with d show ?thesis by (simp add: digits_inj)
qed

lemma digits_hd: "\<exists>c cs. digits n = c # cs \<and> is_digit c"
proof -
  from digits_nonempty [of n] obtain c cs where d: "digits n = c # cs"
    by (cases "digits n") auto
  with digits_all [of n] show ?thesis by simp
qed

lemma not_digit_minus: "\<not> is_digit CHR ''-''"
  by (simp add: is_digit_def)

lemma Number_toString_split:
  assumes "Number_toString n @ r = Number_toString m @ r'" and "follows r" and "follows r'"
  shows "n = m \<and> r = r'"
proof (cases "n < 0")
  case True
  show ?thesis
  proof (cases "m < 0")
    case m: True
    from assms(1) True m have "digits (nat (- n)) @ r = digits (nat (- m)) @ r'"
      by (simp add: Number_toString_def)
    from digits_split [OF this assms(2,3)] True m show ?thesis by auto
  next
    case False
    obtain c cs where "digits (nat m) = c # cs" "is_digit c" using digits_hd by blast
    with assms(1) True False not_digit_minus show ?thesis
      by (auto simp: Number_toString_def)
  qed
next
  case False
  show ?thesis
  proof (cases "m < 0")
    case True
    obtain c cs where "digits (nat n) = c # cs" "is_digit c" using digits_hd by blast
    with assms(1) True False not_digit_minus show ?thesis
      by (auto simp: Number_toString_def)
  next
    case m: False
    from assms(1) False m have "digits (nat n) @ r = digits (nat m) @ r'"
      by (simp add: Number_toString_def)
    from digits_split [OF this assms(2,3)] False m show ?thesis by auto
  qed
qed

subsection \<open>Quoted strings\<close>

lemma hex_val_hex_char: "d < 16 \<Longrightarrow> hex_val (hex_char d) = d"
proof -
  have "\<forall>d \<in> set [0 ..< 16]. hex_val (hex_char d) = d"
    by code_simp
  then show "d < 16 \<Longrightarrow> hex_val (hex_char d) = d" by simp
qed

lemma unquote_quote_char: "unquote_char (quote_char c @ rest) = Some (c, rest)"
proof (cases "(of_char c :: nat) < 32")
  case True
  then have d: "(of_char c :: nat) div 16 < 16" "(of_char c :: nat) mod 16 < 16" by simp_all
  have "char_of (16 * ((of_char c :: nat) div 16) + (of_char c :: nat) mod 16) = c"
    by simp
  then show ?thesis
    by (simp add: quote_char_def hex_val_hex_char [OF d(1)] hex_val_hex_char [OF d(2)])
next
  case False
  then show ?thesis by (simp add: quote_char_def)
qed

lemma quote_body_split:
  "concat (map quote_char s) @ CHR 0x22 # r = concat (map quote_char t) @ CHR 0x22 # r'
     \<Longrightarrow> s = t \<and> r = r'"
proof (induction s arbitrary: t)
  case Nil
  show ?case
  proof (cases t)
    case Nil
    with Nil.prems show ?thesis by simp
  next
    case (Cons d t')
    from Nil.prems Cons have
      "unquote_char (CHR 0x22 # r)
         = unquote_char (quote_char d @ (concat (map quote_char t') @ CHR 0x22 # r'))"
      by simp
    then show ?thesis by (simp only: unquote_quote_char) simp
  qed
next
  case (Cons c s')
  show ?case
  proof (cases t)
    case Nil
    from Cons.prems Nil have
      "unquote_char (quote_char c @ (concat (map quote_char s') @ CHR 0x22 # r))
         = unquote_char (CHR 0x22 # r')"
      by simp
    then show ?thesis by (simp only: unquote_quote_char) simp
  next
    case t: (Cons d t')
    from Cons.prems t have
      "unquote_char (quote_char c @ (concat (map quote_char s') @ CHR 0x22 # r))
         = unquote_char (quote_char d @ (concat (map quote_char t') @ CHR 0x22 # r'))"
      by simp
    then have cd: "c = d"
      and rest: "concat (map quote_char s') @ CHR 0x22 # r
                   = concat (map quote_char t') @ CHR 0x22 # r'"
      by (simp_all only: unquote_quote_char option.inject prod.inject)
    from Cons.IH [OF rest] cd t show ?thesis by simp
  qed
qed

lemma QuoteJSONString_split:
  "QuoteJSONString s @ r = QuoteJSONString t @ r' \<Longrightarrow> s = t \<and> r = r'"
  using quote_body_split [of s r t r'] by (simp add: QuoteJSONString_def)

subsection \<open>The first character tells the kind of value\<close>

lemma lead_kind_digit: "is_digit c \<Longrightarrow> lead_kind c = 2"
  by (auto simp: lead_kind_def is_digit_def)

lemma plain_text_lead:
  assumes "plain v"
  shows "\<exists>c cs. plain_text v = c # cs \<and> lead_kind c = kind v"
proof (cases v)
  case (JNum n)
  show ?thesis
  proof (cases "n < 0")
    case True
    with JNum show ?thesis by (simp add: Number_toString_def lead_kind_def)
  next
    case False
    obtain c cs where "digits (nat n) = c # cs" "is_digit c" using digits_hd by blast
    with JNum False show ?thesis by (simp add: Number_toString_def lead_kind_digit)
  qed
next
  case (JBool b)
  then show ?thesis by (cases b) (simp_all add: lead_kind_def)
qed (use assms in \<open>simp_all add: lead_kind_def QuoteJSONString_def is_digit_def\<close>)

lemma plain_text_kind:
  assumes "plain a" and "plain b" and "plain_text a @ r = plain_text b @ r'"
  shows "kind a = kind b"
proof -
  from plain_text_lead [OF assms(1)] obtain c cs where
    a: "plain_text a = c # cs" "lead_kind c = kind a" by blast
  from plain_text_lead [OF assms(2)] obtain d ds where
    b: "plain_text b = d # ds" "lead_kind d = kind b" by blast
  from assms(3) a(1) b(1) have "c = d" by simp
  with a(2) b(2) show ?thesis by simp
qed

subsection \<open>Comma-separated items\<close>

lemma join_Cons_append:
  "join sep (x # xs) @ rest = x @ (if xs = [] then rest else sep @ join sep xs @ rest)"
  by (cases xs) simp_all

lemma join_split:
  assumes split: "\<And>x y R R'. x \<in> set xs \<Longrightarrow> y \<in> set ys \<Longrightarrow> t x @ R = t y @ R' \<Longrightarrow>
            (\<exists>c R0. R = c # R0 \<and> (c = cl \<or> c = CHR '','')) \<Longrightarrow>
            (\<exists>c R0. R' = c # R0 \<and> (c = cl \<or> c = CHR '','')) \<Longrightarrow> x = y \<and> R = R'"
    and starts: "\<And>x. x \<in> set xs \<union> set ys \<Longrightarrow> \<exists>c cs. t x = c # cs \<and> c \<noteq> cl"
    and cl: "cl \<noteq> CHR '',''"
    and eq: "join '','' (map t xs) @ cl # r = join '','' (map t ys) @ cl # r'"
  shows "xs = ys \<and> r = r'"
  using split starts eq
proof (induction xs arbitrary: ys)
  case Nil
  show ?case
  proof (cases ys)
    case Nil
    with Nil.prems(3) show ?thesis by simp
  next
    case (Cons y ys')
    from Nil.prems(2) [of y] Cons obtain c cs where c: "t y = c # cs" "c \<noteq> cl" by auto
    have "join '','' (map t ys) @ cl # r' = c # cs
            @ (if ys' = [] then cl # r' else '','' @ join '','' (map t ys') @ cl # r')"
      using join_Cons_append [of "'',''" "t y" "map t ys'" "cl # r'"] Cons c by simp
    with Nil.prems(3) c(2) show ?thesis by simp
  qed
next
  case (Cons x xs')
  show ?case
  proof (cases ys)
    case Nil
    from Cons.prems(2) [of x] obtain c cs where c: "t x = c # cs" "c \<noteq> cl" by auto
    have "join '','' (map t (x # xs')) @ cl # r = c # cs
            @ (if xs' = [] then cl # r else '','' @ join '','' (map t xs') @ cl # r)"
      using join_Cons_append [of "'',''" "t x" "map t xs'" "cl # r"] c by simp
    with Cons.prems(3) Nil c(2) show ?thesis by simp
  next
    case ys: (Cons y ys')
    let ?R = "if xs' = [] then cl # r else '','' @ join '','' (map t xs') @ cl # r"
    let ?R' = "if ys' = [] then cl # r' else '','' @ join '','' (map t ys') @ cl # r'"
    have "join '','' (map t (x # xs')) @ cl # r = t x @ ?R"
      using join_Cons_append [of "'',''" "t x" "map t xs'" "cl # r"] by simp
    moreover have "join '','' (map t (y # ys')) @ cl # r' = t y @ ?R'"
      using join_Cons_append [of "'',''" "t y" "map t ys'" "cl # r'"] by simp
    ultimately have e: "t x @ ?R = t y @ ?R'"
      using Cons.prems(3) ys by simp
    have "\<exists>c R0. ?R = c # R0 \<and> (c = cl \<or> c = CHR '','')" by simp
    moreover have "\<exists>c R0. ?R' = c # R0 \<and> (c = cl \<or> c = CHR '','')" by simp
    ultimately have xy: "x = y" and R: "?R = ?R'"
      using Cons.prems(1) [of x y ?R ?R'] e ys by simp_all
    show ?thesis
    proof (cases "xs' = []")
      case True
      with R cl have "ys' = [] \<and> r = r'" by (auto split: if_splits)
      with True xy ys show ?thesis by simp
    next
      case False
      with R cl have ne: "ys' \<noteq> []"
        and rest: "join '','' (map t xs') @ cl # r = join '','' (map t ys') @ cl # r'"
        by (auto split: if_splits)
      have "xs' = ys' \<and> r = r'"
      proof (rule Cons.IH [OF _ _ rest])
        fix x0 y0 R0 R0'
        assume "x0 \<in> set xs'" "y0 \<in> set ys'" "t x0 @ R0 = t y0 @ R0'"
          "\<exists>c R1. R0 = c # R1 \<and> (c = cl \<or> c = CHR '','')"
          "\<exists>c R1. R0' = c # R1 \<and> (c = cl \<or> c = CHR '','')"
        then show "x0 = y0 \<and> R0 = R0'"
          using Cons.prems(1) [of x0 y0 R0 R0'] ys by simp
      next
        fix x0 assume "x0 \<in> set xs' \<union> set ys'"
        then show "\<exists>c cs. t x0 = c # cs \<and> c \<noteq> cl"
          using Cons.prems(2) [of x0] ys by auto
      qed
      with xy ys show ?thesis by simp
    qed
  qed
qed

subsection \<open>A plain value can be read back from its text\<close>

lemma plain_kind: "plain v \<Longrightarrow> kind v < 6"
  by (cases v) simp_all

lemma plain_text_not_closing:
  assumes "plain v" and "lead_kind cl = 6"
  shows "\<exists>c cs. plain_text v = c # cs \<and> c \<noteq> cl"
proof -
  from plain_text_lead [OF assms(1)] obtain c cs where
    c: "plain_text v = c # cs" "lead_kind c = kind v" by blast
  with plain_kind [OF assms(1)] assms(2) have "c \<noteq> cl" by auto
  with c(1) show ?thesis by blast
qed

lemma follows_separator:
  assumes "\<exists>c R0. R = c # R0 \<and> (c = cl \<or> c = CHR '','')" and "cl = CHR '']'' \<or> cl = CHR ''}''"
  shows "follows R"
  using assms by (auto simp: follows_def is_digit_def)

lemma plain_text_split:
  "plain a \<Longrightarrow> plain b \<Longrightarrow> plain_text a @ r = plain_text b @ r' \<Longrightarrow> follows r \<Longrightarrow> follows r'
     \<Longrightarrow> a = b \<and> r = r'"
proof (induction a arbitrary: b r r')
  case JUndefined
  then show ?case by simp
next
  case (JFun src)
  then show ?case by simp
next
  case JNull
  from plain_text_kind [OF JNull(1,2,3)] have "b = JNull" by (cases b) simp_all
  with JNull(3) show ?case by simp
next
  case (JBool x)
  from plain_text_kind [OF JBool(1,2,3)] obtain y where b: "b = JBool y" by (cases b) simp_all
  with JBool(3) show ?case by (cases x; cases y) simp_all
next
  case (JNum n)
  from plain_text_kind [OF JNum(1,2,3)] obtain m where b: "b = JNum m" by (cases b) simp_all
  with JNum(3) have "Number_toString n @ r = Number_toString m @ r'" by simp
  from Number_toString_split [OF this JNum(4,5)] b show ?case by simp
next
  case (JStr s)
  from plain_text_kind [OF JStr(1,2,3)] obtain t where b: "b = JStr t" by (cases b) simp_all
  with JStr(3) have "QuoteJSONString s @ r = QuoteJSONString t @ r'" by simp
  from QuoteJSONString_split [OF this] b show ?case by simp
next
  case (JArr xs)
  from plain_text_kind [OF JArr(2,3,4)] obtain ys where b: "b = JArr ys" by (cases b) simp_all
  from JArr(2) have pxs: "\<forall>x \<in> set xs. plain x" by (simp add: list_all_iff)
  from JArr(3) b have pys: "\<forall>y \<in> set ys. plain y" by (simp add: list_all_iff)
  from JArr(4) b have eq:
    "join '','' (map plain_text xs) @ CHR '']'' # r = join '','' (map plain_text ys) @ CHR '']'' # r'"
    by simp
  have "xs = ys \<and> r = r'"
  proof (rule join_split [where t = plain_text and cl = "CHR '']''", OF _ _ _ eq])
    fix x y R R'
    assume x: "x \<in> set xs" and y: "y \<in> set ys" and e: "plain_text x @ R = plain_text y @ R'"
      and R: "\<exists>c R0. R = c # R0 \<and> (c = CHR '']'' \<or> c = CHR '','')"
      and R': "\<exists>c R0. R' = c # R0 \<and> (c = CHR '']'' \<or> c = CHR '','')"
    from R have fR: "follows R" by (rule follows_separator) simp
    from R' have fR': "follows R'" by (rule follows_separator) simp
    from x pxs have px: "plain x" by simp
    from y pys have py: "plain y" by simp
    show "x = y \<and> R = R'" by (rule JArr.IH [OF x px py e fR fR'])
  next
    fix x assume "x \<in> set xs \<union> set ys"
    with pxs pys have "plain x" by auto
    then show "\<exists>c cs. plain_text x = c # cs \<and> c \<noteq> CHR '']''"
      by (rule plain_text_not_closing) (simp add: lead_kind_def is_digit_def)
  next
    show "CHR '']'' \<noteq> CHR '',''" by simp
  qed
  with b show ?case by simp
next
  case (JObj ps)
  from plain_text_kind [OF JObj(2,3,4)] obtain qs where b: "b = JObj qs" by (cases b) simp_all
  let ?t = "\<lambda>p. QuoteJSONString (fst p) @ '':'' @ plain_text (snd p)"
  from JObj(2) have pps: "\<forall>p \<in> set ps. plain (snd p)" by (simp add: list_all_iff)
  from JObj(3) b have pqs: "\<forall>q \<in> set qs. plain (snd q)" by (simp add: list_all_iff)
  from JObj(4) b have eq:
    "join '','' (map ?t ps) @ CHR ''}'' # r = join '','' (map ?t qs) @ CHR ''}'' # r'"
    by simp
  have "ps = qs \<and> r = r'"
  proof (rule join_split [where t = ?t and cl = "CHR ''}''", OF _ _ _ eq])
    fix p q R R'
    assume p: "p \<in> set ps" and q: "q \<in> set qs" and e: "?t p @ R = ?t q @ R'"
      and R: "\<exists>c R0. R = c # R0 \<and> (c = CHR ''}'' \<or> c = CHR '','')"
      and R': "\<exists>c R0. R' = c # R0 \<and> (c = CHR ''}'' \<or> c = CHR '','')"
    from R have fR: "follows R" by (rule follows_separator) simp
    from R' have fR': "follows R'" by (rule follows_separator) simp
    obtain k v where pk: "p = (k, v)" by (cases p)
    obtain k' v' where qk: "q = (k', v')" by (cases q)
    from e pk qk have
      "QuoteJSONString k @ ('':'' @ plain_text v @ R)
         = QuoteJSONString k' @ ('':'' @ plain_text v' @ R')"
      by simp
    from QuoteJSONString_split [OF this] have kk: "k = k'"
      and e': "plain_text v @ R = plain_text v' @ R'" by simp_all
    from p pps pk have pv: "plain v" by auto
    from q pqs qk have pv': "plain v'" by auto
    from pk have "v \<in> Basic_BNFs.snds p" by simp
    from JObj.IH [OF p this pv pv' e' fR fR'] kk pk qk show "p = q \<and> R = R'" by simp
  next
    fix p assume "p \<in> set ps \<union> set qs"
    show "\<exists>c cs. ?t p = c # cs \<and> c \<noteq> CHR ''}''"
      by (simp add: QuoteJSONString_def)
  next
    show "CHR ''}'' \<noteq> CHR '',''" by simp
  qed
  with b show ?case by simp
qed

lemma JSON_stringify_plain_inj:
  assumes "plain a" and "plain b" and "JSON_stringify a = JSON_stringify b"
  shows "a = b"
proof -
  from assms have "plain_text a @ [] = plain_text b @ []"
    by (simp add: JSON_stringify_plain)
  moreover have "follows []" by (simp add: follows_def)
  ultimately show ?thesis using plain_text_split [OF assms(1,2)] by blast
qed

section \<open>How two values are compared\<close>

lemma compare_validator_compared:
  assumes "\<not> js_truthy (vr_error v)" and "vr_results v = Some rs"
    and "map_of rs qid = Some validatorRes" and "\<not> js_truthy (r_error validatorRes)"
  shows "compare_validator creatorRes qid v =
           Normal \<lparr>e_validatorId = validatorId v, e_validatorModel = validatorModel v,
                   e_result = r_result validatorRes, e_error = JUndefined,
                   matches = (JSON_stringify (r_result creatorRes)
                                = JSON_stringify (r_result validatorRes))\<rparr>"
  using assms by (simp add: compare_validator_def)

text \<open>
  Claim C2, as amended. For every question and every validator that has a result for it,
  the creator's value is compared with the validator's value by strict equality of their
  \<open>JSON.stringify\<close> texts, with no normalisation. Two JSON values therefore match exactly
  when they are identical, with object keys in the same order and array elements in the same
  order; two objects that hold the same properties in a different key order do not match.
\<close>

theorem values_match_iff_same_text:
  assumes "\<not> js_truthy (vr_error v)" and "vr_results v = Some rs"
    and "map_of rs qid = Some validatorRes" and "\<not> js_truthy (r_error validatorRes)"
  shows "\<exists>e. compare_validator creatorRes qid v = Normal e
           \<and> e_result e = r_result validatorRes
           \<and> matches e = (JSON_stringify (r_result creatorRes)
                            = JSON_stringify (r_result validatorRes))
           \<and> (plain (r_result creatorRes) \<and> plain (r_result validatorRes) \<longrightarrow>
                 matches e = (r_result creatorRes = r_result validatorRes))"
proof -
  let ?e = "\<lparr>e_validatorId = validatorId v, e_validatorModel = validatorModel v,
             e_result = r_result validatorRes, e_error = JUndefined,
             matches = (JSON_stringify (r_result creatorRes)
                          = JSON_stringify (r_result validatorRes))\<rparr>"
  have e: "compare_validator creatorRes qid v = Normal ?e"
    using assms by (rule compare_validator_compared)
  have "matches ?e = (r_result creatorRes = r_result validatorRes)"
    if "plain (r_result creatorRes) \<and> plain (r_result validatorRes)"
    using that JSON_stringify_plain_inj [of "r_result creatorRes" "r_result validatorRes"]
    by auto
  with e show ?thesis by auto
qed

theorem values_match_iff_same_text_witness:
  "matches_of (compare_validator (scenario_entry (JObj [(''a'', JNum 1), (''b'', JArr [JNum 1, JNum 2])]))
      ''q1'' (scenario_validator (JObj [(''a'', JNum 1), (''b'', JArr [JNum 1, JNum 2])]))) = Some True
   \<and> matches_of (compare_validator (scenario_entry (JObj [(''a'', JNum 1), (''b'', JArr [JNum 1, JNum 2])]))
      ''q1'' (scenario_validator (JObj [(''b'', JArr [JNum 1, JNum 2]), (''a'', JNum 1)]))) = Some False
   \<and> matches_of (compare_validator (scenario_entry (JObj [(''a'', JNum 1), (''b'', JArr [JNum 1, JNum 2])]))
      ''q1'' (scenario_validator (JObj [(''a'', JNum 1), (''b'', JArr [JNum 2, JNum 1])]))) = Some False"
proof -
  let ?c = "JObj [(''a'', JNum 1), (''b'', JArr [JNum 1, JNum 2])]"
  have h: "\<not> js_truthy (vr_error (scenario_validator x))"
    "vr_results (scenario_validator x) = Some [(''q1'', scenario_entry x)]"
    "map_of [(''q1'', scenario_entry x)] ''q1'' = Some (scenario_entry x)"
    "\<not> js_truthy (r_error (scenario_entry x))" for x
    by (simp_all add: scenario_validator_def scenario_entry_def)
  have p: "plain ?c" "plain (JObj [(''b'', JArr [JNum 1, JNum 2]), (''a'', JNum 1)])"
    "plain (JObj [(''a'', JNum 1), (''b'', JArr [JNum 2, JNum 1])])"
    by simp_all
  have r: "r_result (scenario_entry x) = x" for x by (simp add: scenario_entry_def)
  have t: "\<exists>e. compare_validator (scenario_entry ?c) ''q1'' (scenario_validator x) = Normal e
           \<and> e_result e = x
           \<and> matches e = (JSON_stringify ?c = JSON_stringify x)
           \<and> (plain ?c \<and> plain x \<longrightarrow> matches e = (?c = x))" for x
    using values_match_iff_same_text
            [OF h(1) [of x] h(2) [of x] h(3) [of x] h(4) [of x],
             where creatorRes = "scenario_entry ?c"]
    by (simp add: r)
  from t [of ?c] p have "matches_of (compare_validator (scenario_entry ?c) ''q1''
      (scenario_validator ?c)) = Some True"
    by (auto simp: matches_of_def)
  moreover from t [of "JObj [(''b'', JArr [JNum 1, JNum 2]), (''a'', JNum 1)]"] p
  have "matches_of (compare_validator (scenario_entry ?c) ''q1''
      (scenario_validator (JObj [(''b'', JArr [JNum 1, JNum 2]), (''a'', JNum 1)]))) = Some False"
    by (auto simp: matches_of_def)
  moreover from t [of "JObj [(''a'', JNum 1), (''b'', JArr [JNum 2, JNum 1])]"] p
  have "matches_of (compare_validator (scenario_entry ?c) ''q1''
      (scenario_validator (JObj [(''a'', JNum 1), (''b'', JArr [JNum 2, JNum 1])]))) = Some False"
    by (auto simp: matches_of_def)
  ultimately show ?thesis by blast
qed

text \<open>
  The objects \<open>{a: 1, b: 2}\<close> and \<open>{b: 2, a: 1}\<close> hold the same properties, and the comparison
  records \<open>matches = false\<close>.
\<close>

theorem key_order_counterexample:
  "map_of [(''a'', JNum 1), (''b'', JNum 2)] = map_of [(''b'', JNum 2), (''a'', JNum 1)]
   \<and> compare_validator (scenario_entry (JObj [(''a'', JNum 1), (''b'', JNum 2)])) ''q1''
        \<lparr>validatorId = 1, validatorModel = ''v1'',
         vr_results = Some [(''q1'', scenario_entry (JObj [(''b'', JNum 2), (''a'', JNum 1)]))],
         vr_error = JUndefined\<rparr>
      = Normal \<lparr>e_validatorId = 1, e_validatorModel = ''v1'',
                e_result = JObj [(''b'', JNum 2), (''a'', JNum 1)], e_error = JUndefined,
                matches = False\<rparr>"
proof
  show "map_of [(''a'', JNum 1), (''b'', JNum 2)] = map_of [(''b'', JNum 2), (''a'', JNum 1)]"
    by (auto simp: fun_eq_iff)
  show "compare_validator (scenario_entry (JObj [(''a'', JNum 1), (''b'', JNum 2)])) ''q1''
        \<lparr>validatorId = 1, validatorModel = ''v1'',
         vr_results = Some [(''q1'', scenario_entry (JObj [(''b'', JNum 2), (''a'', JNum 1)]))],
         vr_error = JUndefined\<rparr>
      = Normal \<lparr>e_validatorId = 1, e_validatorModel = ''v1'',
                e_result = JObj [(''b'', JNum 2), (''a'', JNum 1)], e_error = JUndefined,
                matches = False\<rparr>"
    by code_simp
qed


section \<open>Properties of the question runner\<close>

lemma eval_params_throw:
  "eval_params ev ps = Throw e \<Longrightarrow> \<exists>s. ev s = Throw e"
proof (induction ps)
  case Nil
  then show ?case by simp
next
  case (Cons p ps)
  obtain key v where p: "p = (key, v)" by (cases p)
  from Cons.prems p Cons.IH show ?case
    by (auto split: completion.splits jsval.splits if_splits)
qed

lemma vm_catch_not_nullish: "\<not> nullish (vm_catch err)"
  by (auto simp: vm_catch_def nullish_def TypeError_read_def js_Error_def)

lemma run_question_throw:
  assumes "run_question ev sim fb q = Throw e"
  shows "(\<exists>s. ev s = Throw e) \<or> \<not> nullish e"
proof (cases "eval_params ev (spread_props (js_or (js_get q ''parameters'') (JObj [])))")
  case (Throw e')
  with assms have "e' = e" by (simp add: run_question_def)
  with Throw eval_params_throw show ?thesis by blast
next
  case (Normal params)
  have "\<not> nullish e"
    using assms Normal vm_catch_not_nullish
    by (auto simp: run_question_def nullish_def js_Error_def
        split: completion.splits jsval.splits if_splits)
  then show ?thesis by simp
qed

lemma run_loop_entries:
  assumes ev: "\<And>s e. ev s = Throw e \<Longrightarrow> \<not> nullish e"
    and qs: "\<forall>q \<in> set qs. \<not> nullish q"
  shows "run_loop ev sim fb qs acc =
           Normal (fold (\<lambda>q. AList.update (js_String (js_get q ''id''))
                               (question_entry ev sim fb q)) qs acc)"
  using qs
proof (induction qs arbitrary: acc)
  case Nil
  show ?case by simp
next
  case (Cons q qs)
  then have nq: "\<not> nullish q" and rest: "\<forall>q \<in> set qs. \<not> nullish q" by simp_all
  show ?case
  proof (cases "run_question ev sim fb q")
    case (Normal entry)
    with nq show ?thesis
      by (simp add: Cons.IH [OF rest] question_entry_def Let_def)
  next
    case (Throw error)
    from run_question_throw [OF Throw] ev have "\<not> nullish error" by blast
    with Throw nq show ?thesis
      by (simp add: Cons.IH [OF rest] question_entry_def Let_def)
  qed
qed

lemma runSimulation_entries:
  assumes "\<And>s e. ev s = Throw e \<Longrightarrow> \<not> nullish e"
    and "\<forall>q \<in> set qs. \<not> nullish q" and "qs \<noteq> []"
  shows "runSimulation ev (Some sim) qs fb =
           Normal (fold (\<lambda>q. AList.update (js_String (js_get q ''id''))
                               (question_entry ev sim fb q)) qs [])"
  using assms(3) run_loop_entries [OF assms(1,2)] by (simp add: runSimulation_def)

lemma string_throw_entry:
  "runSimulation (throwing_evalFn (JStr ''bad parameter'')) (Some (constant_simulation (JNum 4)))
       [null_throwing_question] False
     = Normal [(''q0'', \<lparr>r_question = JStr ''How long is the list?'',
                         r_parameters = JObj [(''data'', JStr ''(() => { throw null })()'')],
                         r_result = JUndefined, r_error = JUndefined\<rparr>)]"
  by code_simp

text \<open>
  Claim C9 fails on a parameter evaluation that throws \<open>null\<close>: the \<open>catch\<close> block of the
  first question reads \<open>error.message\<close>, the read raises a \<open>TypeError\<close> that leaves the loop,
  and no question of the batch gets an entry. The same batch with an evaluation that throws
  an \<open>Error\<close> object gives one entry per question.
\<close>

theorem null_throw_aborts_batch:
  "runSimulation (throwing_evalFn JNull) (Some (constant_simulation (JNum 4)))
       [null_throwing_question, scenario_question] False
     = Throw (TypeError_read JNull ''message'')
   \<and> runSimulation (throwing_evalFn (js_Error ''boom'')) (Some (constant_simulation (JNum 4)))
       [null_throwing_question, scenario_question] False
     = Normal [(''q0'', \<lparr>r_question = JStr ''How long is the list?'',
                         r_parameters = JObj [(''data'', JStr ''(() => { throw null })()'')],
                         r_result = JUndefined, r_error = JStr ''boom''\<rparr>),
               (''q1'', scenario_entry (JNum 4))]"
  by code_simp


section \<open>Properties of the scorer and the leaderboard\<close>

subsection \<open>Trimming and lower-casing\<close>

lemma of_char_lower_char:
  "(of_char (lower_char c) :: nat) =
     (if (65 \<le> (of_char c :: nat) \<and> (of_char c :: nat) \<le> 90)
         \<or> (192 \<le> (of_char c :: nat) \<and> (of_char c :: nat) \<le> 222 \<and> (of_char c :: nat) \<noteq> 215)
      then of_char c + 32 else of_char c)"
  by (auto simp: lower_char_def Let_def of_char_of)

lemma char_eq_of_char: "(c = d) = ((of_char c :: nat) = of_char d)"
  by (metis char_of_char)

lemma lower_char_idem: "lower_char (lower_char c) = lower_char c"
  unfolding char_eq_of_char [of "lower_char (lower_char c)"]
  by (simp add: of_char_lower_char)

lemma toLowerCase_idem: "toLowerCase (toLowerCase s) = toLowerCase s"
  by (simp add: toLowerCase_def lower_char_idem)

lemma is_whitespace_of_char:
  "is_whitespace c = ((of_char c :: nat) \<in> {9, 10, 11, 12, 13, 32, 160})"
  by (simp add: is_whitespace_def char_eq_of_char [of c])

lemma is_whitespace_lower_char: "is_whitespace (lower_char c) = is_whitespace c"
  by (auto simp: is_whitespace_of_char of_char_lower_char)

lemma dropWhile_toLowerCase:
  "dropWhile is_whitespace (toLowerCase s) = toLowerCase (dropWhile is_whitespace s)"
  by (induction s) (simp_all add: toLowerCase_def is_whitespace_lower_char)

lemma trim_toLowerCase: "trim (toLowerCase s) = toLowerCase (trim s)"
proof -
  have r: "rev (toLowerCase s) = toLowerCase (rev s)" for s
    by (simp add: toLowerCase_def rev_map)
  show ?thesis
    unfolding trim_def by (simp only: dropWhile_toLowerCase r)
qed

lemma dropWhile_pad:
  "list_all is_whitespace ws \<Longrightarrow> dropWhile is_whitespace (ws @ s) = dropWhile is_whitespace s"
  by (induction ws) simp_all

lemma dropWhile_all: "list_all P xs \<Longrightarrow> dropWhile P xs = []"
  by (induction xs) simp_all

lemma trim_pad:
  assumes "list_all is_whitespace ws1" and "list_all is_whitespace ws2"
  shows "trim (ws1 @ s @ ws2) = trim s"
proof -
  have A: "dropWhile is_whitespace (ws1 @ s @ ws2) = dropWhile is_whitespace (s @ ws2)"
    using assms(1) by (rule dropWhile_pad)
  have B: "dropWhile is_whitespace (rev (t @ ws2)) = dropWhile is_whitespace (rev t)" for t
    using assms(2) by (simp add: dropWhile_pad list_all_iff)
  show ?thesis
  proof (cases "list_all is_whitespace s")
    case True
    with assms(2) have "list_all is_whitespace (s @ ws2)" by simp
    then have e1: "dropWhile is_whitespace (s @ ws2) = []" by (rule dropWhile_all)
    from True have e2: "dropWhile is_whitespace s = []" by (rule dropWhile_all)
    show ?thesis unfolding trim_def A e1 e2 by (rule refl)
  next
    case False
    then have "dropWhile is_whitespace (s @ ws2) = dropWhile is_whitespace s @ ws2"
      by (induction s) auto
    then show ?thesis unfolding trim_def A by (simp only: B)
  qed
qed

subsection \<open>The scoring loop\<close>

lemma fold_update_keyed_map_of:
  "distinct (map fst ps) \<Longrightarrow>
     map_of (fold (\<lambda>(k, v) acc. AList.update k (f k v) acc) ps acc0) k =
       (case map_of ps k of Some v \<Rightarrow> Some (f k v) | None \<Rightarrow> map_of acc0 k)"
proof (induction ps arbitrary: acc0)
  case Nil
  then show ?case by simp
next
  case (Cons p ps)
  obtain k0 v0 where p: "p = (k0, v0)" by (cases p)
  from Cons.prems p have d: "distinct (map fst ps)" and n: "k0 \<notin> fst ` set ps" by auto
  from n have none: "map_of ps k0 = None" by (simp add: map_of_eq_None_iff)
  show ?case
    using Cons.IH [OF d, of "AList.update k0 (f k0 v0) acc0"] none
    by (auto simp: p update_conv' split: option.splits)
qed

lemma fold_score_entry:
  "fold (score_entry ex) out (r, b, c) =
     (fold (\<lambda>(qId, data) acc. AList.update qId
              (JObj [(''answer'', coalesce (js_get data ''answer'') data),
                     (''explanation'',
                        js_or (js_get data ''explanation'') (JStr ''No explanation provided''))])
              acc) out r,
      fold (\<lambda>(qId, data) acc. AList.update qId (answer_ok ex qId data) acc) out b,
      c + length (filter (\<lambda>(qId, data). answer_ok ex qId data) out))"
  by (induction out arbitrary: r b c)
     (auto simp: score_entry_def answer_ok_def Let_def)

lemma solveWithModel_results:
  "results (solveWithModel worldQuestions solverOutput) =
     (let ex = expectedAnswers_of worldQuestions [];
          correct = length (filter (\<lambda>(qId, data). answer_ok ex qId data) solverOutput);
          totalQuestions = length worldQuestions;
          scorePercentage = (if totalQuestions = 0 then 0
                             else Math_round (real correct / real totalQuestions * 100))
      in \<lparr>total_questions = totalQuestions, total_correct_answers = correct,
          error_count = int totalQuestions - int correct,
          score_percentage = scorePercentage,
          breakdown = fold (\<lambda>(qId, data) acc. AList.update qId (answer_ok ex qId data) acc)
                        solverOutput []\<rparr>)"
  by (simp add: solveWithModel_def fold_score_entry Let_def)

lemma expectedAnswers_keys:
  "fst ` set (expectedAnswers_of qs acc) =
     fst ` set acc \<union> {js_String (js_get q ''id'') | q. q \<in> set qs \<and> js_truthy (js_get q ''id'')}"
  by (induction qs arbitrary: acc) (auto simp: dom_update)

lemma isCorrect_defined: "isCorrect expected answer \<Longrightarrow> expected \<noteq> JUndefined"
  by (simp add: isCorrect_def Let_def)

lemma answer_ok_known:
  assumes "answer_ok ex qId data"
  shows "qId \<in> fst ` set ex"
proof (rule ccontr)
  assume "qId \<notin> fst ` set ex"
  then have "map_of ex qId = None" by (simp add: map_of_eq_None_iff)
  then have "js_lookup ex qId = JUndefined" by (simp add: js_lookup_def)
  with assms show False using isCorrect_defined by (auto simp: answer_ok_def)
qed

lemma Math_round_percent:
  assumes "0 < n"
  shows "Math_round (real correct / real n * 100) =
           (200 * int correct + int n) div (2 * int n)"
proof -
  have "real correct / real n * 100 + 1 / 2
          = real_of_int (200 * int correct + int n) / real_of_int (2 * int n)"
    using assms by (simp add: field_simps)
  then show ?thesis
    unfolding Math_round_def by (simp only: floor_divide_of_int_eq)
qed

lemma correct_le_present:
  assumes "distinct (map fst out)"
  shows "length (filter (\<lambda>(qId, data). answer_ok (expectedAnswers_of qs []) qId data) out)
           \<le> length (filter (\<lambda>q. js_String (js_get q ''id'') \<in> fst ` set out) qs)"
proof -
  define ex where "ex = expectedAnswers_of qs []"
  define ok where "ok = (\<lambda>(qId, data). answer_ok ex qId data)"
  define ident where "ident = (\<lambda>q. js_String (js_get q ''id''))"
  define present where "present = (\<lambda>q. ident q \<in> fst ` set out)"
  have d: "distinct (map fst (filter ok out))"
    using assms by (rule distinct_map_filter)
  have 1: "length (filter ok out) = card (fst ` set (filter ok out))"
    using distinct_card [OF d] by simp
  have 2: "fst ` set (filter ok out) \<subseteq> ident ` set (filter present qs)"
  proof
    fix k assume "k \<in> fst ` set (filter ok out)"
    then obtain data where m: "(k, data) \<in> set out" and ok: "answer_ok ex k data"
      unfolding ok_def by auto
    from answer_ok_known [OF ok] have "k \<in> fst ` set ex" .
    then have "k \<in> {js_String (js_get q ''id'') | q. q \<in> set qs \<and> js_truthy (js_get q ''id'')}"
      unfolding ex_def expectedAnswers_keys by simp
    then obtain q where q: "q \<in> set qs" "k = ident q"
      unfolding ident_def by blast
    from m have "k \<in> fst ` set out" by (rule image_eqI [rotated]) simp
    with q have "q \<in> set (filter present qs)" by (simp add: present_def)
    with q(2) show "k \<in> ident ` set (filter present qs)" by (rule image_eqI)
  qed
  have 3: "card (fst ` set (filter ok out)) \<le> card (ident ` set (filter present qs))"
    using 2 by (simp add: card_mono)
  have 4: "card (ident ` set (filter present qs)) \<le> length (filter present qs)"
    using card_image_le [of "set (filter present qs)" ident] card_length [of "filter present qs"]
    by simp
  from 1 3 4 have "length (filter ok out) \<le> length (filter present qs)" by simp
  then show ?thesis unfolding ok_def present_def ident_def ex_def .
qed

lemma solveWorld_no_questions:
  "solveWorld [] outputs = Throw (js_Error ''World has no questions - nothing to solve'')"
  by (simp add: solveWorld_def)

text \<open>
  Claim C4. The result of scoring has \<open>total_questions\<close> equal to the number of questions of
  the world whatever was submitted; every question without a submitted answer is among the
  \<open>error_count = total - correct\<close> errors; the score is
  \<open>round(correct / total * 100)\<close>, halves rounded up, and \<open>0\<close> when the total is \<open>0\<close>.
\<close>

theorem solver_totals:
  "(let r = results (solveWithModel worldQuestions solverOutput);
        n = length worldQuestions;
        k = total_correct_answers r
    in total_questions r = n
       \<and> error_count r = int n - int k
       \<and> score_percentage r = (if n = 0 then 0 else Math_round (real k / real n * 100))
       \<and> score_percentage r = (if n = 0 then 0 else (200 * int k + int n) div (2 * int n))
       \<and> k = length (filter (\<lambda>(qId, data).
                  isCorrect (js_lookup (expectedAnswers_of worldQuestions []) qId)
                    (js_get data ''answer'')) solverOutput)
       \<and> (distinct (map fst solverOutput) \<longrightarrow>
            int (length (filter (\<lambda>q. js_String (js_get q ''id'') \<notin> fst ` set solverOutput)
                           worldQuestions)) \<le> error_count r))"
proof -
  define ex where "ex = expectedAnswers_of worldQuestions []"
  define k where "k = length (filter (\<lambda>(qId, data). answer_ok ex qId data) solverOutput)"
  define n where "n = length worldQuestions"
  have r: "results (solveWithModel worldQuestions solverOutput) =
       \<lparr>total_questions = n, total_correct_answers = k,
          error_count = int n - int k,
          score_percentage = (if n = 0 then 0 else Math_round (real k / real n * 100)),
          breakdown = fold (\<lambda>(qId, data) acc. AList.update qId (answer_ok ex qId data) acc)
                        solverOutput []\<rparr>"
    by (simp add: solveWithModel_results Let_def ex_def k_def n_def)
  have round: "n \<noteq> 0 \<Longrightarrow> Math_round (real k / real n * 100) = (200 * int k + int n) div (2 * int n)"
    using Math_round_percent [of n k] by simp
  have absent: "int (length (filter (\<lambda>q. js_String (js_get q ''id'') \<notin> fst ` set solverOutput)
                           worldQuestions)) \<le> int n - int k"
    if d: "distinct (map fst solverOutput)"
  proof -
    let ?present = "\<lambda>q. js_String (js_get q ''id'') \<in> fst ` set solverOutput"
    from correct_le_present [OF d, of worldQuestions]
    have "k \<le> length (filter ?present worldQuestions)" by (simp add: k_def ex_def)
    moreover have "length (filter ?present worldQuestions)
                    + length (filter (\<lambda>q. \<not> ?present q) worldQuestions) = n"
      unfolding n_def by (rule sum_length_filter_compl)
    ultimately show ?thesis by simp
  qed
  show ?thesis
    unfolding Let_def r
    using round absent
    by (simp add: k_def ex_def n_def answer_ok_def)
qed

theorem solver_totals_witness:
  "distinct (map fst scoring_output)
   \<and> int (length (filter (\<lambda>q. js_String (js_get q ''id'') \<notin> fst ` set scoring_output)
                      scoring_questions))
       \<le> error_count (results (solveWithModel scoring_questions scoring_output))
   \<and> total_questions (results (solveWithModel scoring_questions scoring_output)) = 3
   \<and> total_correct_answers (results (solveWithModel scoring_questions scoring_output)) = 1
   \<and> error_count (results (solveWithModel scoring_questions scoring_output)) = 2
   \<and> score_percentage (results (solveWithModel scoring_questions scoring_output)) = 33
   \<and> score_percentage (results (solveWithModel [] scoring_output)) = 0"
proof -
  have k: "total_correct_answers (results (solveWithModel scoring_questions scoring_output)) = 1"
    by code_simp
  have n: "length scoring_questions = 3" by (simp add: scoring_questions_def)
  have d: "distinct (map fst scoring_output)" by (simp add: scoring_output_def)
  from solver_totals [of scoring_questions scoring_output] solver_totals [of "[]" scoring_output]
  show ?thesis
    by (simp add: Let_def k n d)
qed

subsection \<open>The correctness test\<close>

lemma normalized_pad:
  "list_all is_whitespace ws1 \<Longrightarrow> list_all is_whitespace ws2 \<Longrightarrow>
     normalized (JStr (ws1 @ s @ ws2)) = normalized (JStr s)"
  by (simp add: normalized_def trim_pad)

lemma normalized_lower: "normalized (JStr (toLowerCase s)) = normalized (JStr s)"
  by (simp add: normalized_def trim_toLowerCase toLowerCase_idem)

lemma unwrap_value_JStr: "unwrap_value (JStr s) = JStr s"
  by (simp add: unwrap_value_def)

lemma breakdown_map_of:
  assumes "distinct (map fst solverOutput)"
  shows "map_of (breakdown (results (solveWithModel qs solverOutput))) qId =
           map_option (\<lambda>data. isCorrect (js_lookup (expectedAnswers_of qs []) qId)
                                 (js_get data ''answer''))
             (map_of solverOutput qId)"
  using fold_update_keyed_map_of [OF assms, of "answer_ok (expectedAnswers_of qs [])" "[]" qId]
  by (simp add: solveWithModel_results Let_def answer_ok_def split: option.splits)

text \<open>
  Claim C5. An answer is correct iff neither side is \<open>undefined\<close> and the two sides are equal
  after conversion to a string, trimming and lower-casing; an object answer with a
  \<open>value\<close> property is replaced by that property first. Surrounding white space and letter
  case never change the verdict, the string \<open>"4"\<close> is correct for the number \<open>4\<close>, and
  both the scorer's breakdown and the leaderboard's counts apply this test.
\<close>

theorem correctness_is_normalized_equality:
  "isCorrect expected answer =
     (expected \<noteq> JUndefined \<and> unwrap_value answer \<noteq> JUndefined
      \<and> toLowerCase (trim (js_String (unwrap_value answer)))
          = toLowerCase (trim (js_String expected)))
   \<and> (js_in ''value'' (JObj ps) \<longrightarrow> unwrap_value (JObj ps) = js_get (JObj ps) ''value'')
   \<and> (\<not> js_in ''value'' answer \<longrightarrow> unwrap_value answer = answer)
   \<and> (list_all is_whitespace ws1 \<and> list_all is_whitespace ws2 \<longrightarrow>
         isCorrect expected (JStr (ws1 @ s @ ws2)) = isCorrect expected (JStr s))
   \<and> isCorrect expected (JStr (toLowerCase s)) = isCorrect expected (JStr s)
   \<and> isCorrect (JStr (toLowerCase s)) answer = isCorrect (JStr s) answer
   \<and> isCorrect (JNum 4) (JStr ''4'')
   \<and> (distinct (map fst solverOutput) \<longrightarrow>
         map_of (breakdown (results (solveWithModel qs solverOutput))) qId =
           map_option (\<lambda>data. isCorrect (js_lookup (expectedAnswers_of qs []) qId)
                                 (js_get data ''answer''))
             (map_of solverOutput qId))
   \<and> count_response ex (qId, responseData) stats =
         (if qId \<notin> fst ` set ex then stats
          else if isCorrect (js_lookup ex qId) (js_get responseData ''answer'')
            then \<lparr>total_attempts = total_attempts stats + 1,
                  correct_answers = correct_answers stats + 1\<rparr>
          else \<lparr>total_attempts = total_attempts stats + 1,
                correct_answers = correct_answers stats\<rparr>)"
proof (intro conjI impI)
  show "isCorrect expected answer =
     (expected \<noteq> JUndefined \<and> unwrap_value answer \<noteq> JUndefined
      \<and> toLowerCase (trim (js_String (unwrap_value answer)))
          = toLowerCase (trim (js_String expected)))"
    by (simp add: isCorrect_def Let_def normalized_def)
  show "unwrap_value (JObj ps) = js_get (JObj ps) ''value''" if "js_in ''value'' (JObj ps)"
    using that by (simp add: unwrap_value_def)
  show "unwrap_value answer = answer" if "\<not> js_in ''value'' answer"
    using that by (simp add: unwrap_value_def)
  show "isCorrect expected (JStr (ws1 @ s @ ws2)) = isCorrect expected (JStr s)"
    if "list_all is_whitespace ws1 \<and> list_all is_whitespace ws2"
    using that by (simp add: isCorrect_def Let_def unwrap_value_JStr normalized_pad)
  show "isCorrect expected (JStr (toLowerCase s)) = isCorrect expected (JStr s)"
    by (simp add: isCorrect_def Let_def unwrap_value_JStr normalized_lower)
  show "isCorrect (JStr (toLowerCase s)) answer = isCorrect (JStr s) answer"
    by (simp add: isCorrect_def Let_def normalized_lower)
  show "isCorrect (JNum 4) (JStr ''4'')"
    by code_simp
  show "map_of (breakdown (results (solveWithModel qs solverOutput))) qId =
           map_option (\<lambda>data. isCorrect (js_lookup (expectedAnswers_of qs []) qId)
                                 (js_get data ''answer''))
             (map_of solverOutput qId)" if "distinct (map fst solverOutput)"
    using that by (rule breakdown_map_of)
  show "count_response ex (qId, responseData) stats =
         (if qId \<notin> fst ` set ex then stats
          else if isCorrect (js_lookup ex qId) (js_get responseData ''answer'')
            then \<lparr>total_attempts = total_attempts stats + 1,
                  correct_answers = correct_answers stats + 1\<rparr>
          else \<lparr>total_attempts = total_attempts stats + 1,
                correct_answers = correct_answers stats\<rparr>)"
    by (simp add: count_response_def Let_def)
qed

theorem correctness_is_normalized_equality_witness:
  "js_in ''value'' (JObj [(''value'', JStr ''  PARIS '')])
   \<and> unwrap_value (JObj [(''value'', JStr ''  PARIS '')]) = JStr ''  PARIS ''
   \<and> \<not> js_in ''value'' (JStr ''4'') \<and> unwrap_value (JStr ''4'') = JStr ''4''
   \<and> list_all is_whitespace ''  '' \<and> list_all is_whitespace [CHR 0x09]
   \<and> isCorrect (JStr ''Paris'') (JStr (''  '' @ ''PARIS'' @ [CHR 0x09]))
   \<and> isCorrect (JStr ''Paris'') (JObj [(''value'', JStr ''  PARIS '')])
   \<and> \<not> isCorrect (JStr ''Paris'') (JStr ''Pa ris'')
   \<and> distinct (map fst scoring_output)
   \<and> map_of (breakdown (results (solveWithModel scoring_questions scoring_output))) ''q1''
       = Some True
   \<and> map_of (breakdown (results (solveWithModel scoring_questions scoring_output))) ''q9''
       = Some False"
proof -
  have ws: "list_all is_whitespace ''  '' \<and> list_all is_whitespace [CHR 0x09]"
    by (simp add: is_whitespace_def)
  have e1: "isCorrect (JStr ''Paris'') (JStr ''PARIS'')" by code_simp
  have e2: "isCorrect (JStr ''Paris'') (JObj [(''value'', JStr ''  PARIS '')])" by code_simp
  have e3: "\<not> isCorrect (JStr ''Paris'') (JStr ''Pa ris'')" by code_simp
  have d: "distinct (map fst scoring_output)" by (simp add: scoring_output_def)
  have b1: "map_option (\<lambda>data. isCorrect (js_lookup (expectedAnswers_of scoring_questions []) ''q1'')
                                 (js_get data ''answer'')) (map_of scoring_output ''q1'') = Some True"
    by code_simp
  have b9: "map_option (\<lambda>data. isCorrect (js_lookup (expectedAnswers_of scoring_questions []) ''q9'')
                                 (js_get data ''answer'')) (map_of scoring_output ''q9'') = Some False"
    by code_simp
  note t1 = correctness_is_normalized_equality
      [of "JStr ''Paris''" "JStr ''4''" "[(''value'', JStr ''  PARIS '')]" "''  ''" "[CHR 0x09]"
          "''PARIS''" scoring_output scoring_questions "''q1''"]
  note t9 = correctness_is_normalized_equality
      [of "JStr ''Paris''" "JStr ''4''" "[(''value'', JStr ''  PARIS '')]" "''  ''" "[CHR 0x09]"
          "''PARIS''" scoring_output scoring_questions "''q9''"]
  have "isCorrect (JStr ''Paris'') (JStr (''  '' @ ''PARIS'' @ [CHR 0x09]))"
    using t1 ws e1 by blast
  moreover have "map_of (breakdown (results (solveWithModel scoring_questions scoring_output))) ''q1''
       = Some True"
    using t1 d b1 by simp
  moreover have "map_of (breakdown (results (solveWithModel scoring_questions scoring_output))) ''q9''
       = Some False"
    using t9 d b9 by simp
  moreover have "js_in ''value'' (JObj [(''value'', JStr ''  PARIS '')])
     \<and> unwrap_value (JObj [(''value'', JStr ''  PARIS '')]) = JStr ''  PARIS ''"
    using t1 by simp
  moreover have "\<not> js_in ''value'' (JStr ''4'') \<and> unwrap_value (JStr ''4'') = JStr ''4''"
    using t1 by simp
  ultimately show ?thesis using ws e2 e3 d by blast
qed

subsection \<open>The Wilson interval\<close>

lemma wilson_bounds:
  fixes z n p :: real
  assumes n: "0 < n" and p0: "0 \<le> p" and p1: "p \<le> 1" and z: "0 \<le> z"
  shows "wilson_center z n p - wilson_margin z n p \<le> p"
    and "p \<le> wilson_center z n p + wilson_margin z n p"
proof -
  define D where "D = 1 + z\<^sup>2 / n"
  define R where "R = p * (1 - p) / n + z\<^sup>2 / (4 * n\<^sup>2)"
  define A where "A = z / n * (1 / 2 - p)"
  have D: "0 < D" unfolding D_def using n by (simp add: add_pos_nonneg)
  have pp: "0 \<le> p * (1 - p)" using p0 p1 by simp
  have eq: "R - A\<^sup>2 = p * (1 - p) * (1 / n + z\<^sup>2 / n\<^sup>2)"
    unfolding R_def A_def using n by (simp add: field_simps power2_eq_square)
  have "0 \<le> 1 / n + z\<^sup>2 / n\<^sup>2" using n by simp
  with pp have "0 \<le> p * (1 - p) * (1 / n + z\<^sup>2 / n\<^sup>2)" by (rule mult_nonneg_nonneg)
  with eq have "A\<^sup>2 \<le> R" by simp
  then have "\<bar>A\<bar>\<^sup>2 \<le> R" by simp
  then have absA: "\<bar>A\<bar> \<le> sqrt R" by (rule real_le_rsqrt)
  have zA: "z * \<bar>A\<bar> \<le> z * sqrt R" using absA z by (rule mult_left_mono)
  have "wilson_center z n p * D = p + z\<^sup>2 / (2 * n)"
    unfolding wilson_center_def D_def [symmetric] using D by simp
  moreover have "p * D = p + p * z\<^sup>2 / n"
    unfolding D_def by (simp add: algebra_simps)
  moreover have "z * A = z\<^sup>2 / (2 * n) - p * z\<^sup>2 / n"
    unfolding A_def using n by (simp add: field_simps power2_eq_square)
  ultimately have "(wilson_center z n p - p) * D = z * A"
    by (simp add: algebra_simps)
  then have c: "wilson_center z n p - p = z * A / D"
    using D by (simp add: field_simps)
  have m: "wilson_margin z n p = z * sqrt R / D"
    unfolding wilson_margin_def D_def R_def by simp
  have "z * A \<le> z * \<bar>A\<bar>" using z by (simp add: mult_left_mono)
  with zA have "z * A \<le> z * sqrt R" by simp
  then have "z * A / D \<le> z * sqrt R / D" using D
    by (intro divide_right_mono) simp_all
  with c m show "wilson_center z n p - wilson_margin z n p \<le> p" by simp
  have "- (z * A) \<le> z * \<bar>A\<bar>" using z
    by (metis abs_ge_minus_self mult_left_mono mult_minus_right)
  with zA have "- (z * A) \<le> z * sqrt R" by simp
  then have "(- (z * A)) / D \<le> z * sqrt R / D" using D
    by (intro divide_right_mono) simp_all
  then have "- (z * A / D) \<le> z * sqrt R / D" by simp
  with c m show "p \<le> wilson_center z n p + wilson_margin z n p" by simp
qed

subsection \<open>The aggregation loop\<close>

lemma expectedAnswers_question_ids: "fst ` set (expectedAnswers_of qs []) = question_ids qs"
  unfolding expectedAnswers_keys question_ids_def by auto

lemma count_response_skip:
  "qId \<notin> fst ` set ex \<Longrightarrow> count_response ex (qId, responseData) stats = stats"
  by (simp add: count_response_def)

lemma count_response_step:
  "count_response ex r d =
     (if fst r \<notin> fst ` set ex then d
      else if isCorrect (js_lookup ex (fst r)) (js_get (snd r) ''answer'')
        then \<lparr>total_attempts = total_attempts d + 1, correct_answers = correct_answers d + 1\<rparr>
      else \<lparr>total_attempts = total_attempts d + 1, correct_answers = correct_answers d\<rparr>)"
  by (cases r) (simp add: count_response_def Let_def)

lemma fold_count_response:
  "fold (count_response ex) rs d =
     \<lparr>total_attempts = total_attempts d + length (filter (\<lambda>r. fst r \<in> fst ` set ex) rs),
      correct_answers = correct_answers d
        + length (filter (\<lambda>r. fst r \<in> fst ` set ex
                            \<and> isCorrect (js_lookup ex (fst r)) (js_get (snd r) ''answer'')) rs)\<rparr>"
proof (induction rs arbitrary: d)
  case Nil
  show ?case by simp
next
  case (Cons r rs)
  have "fold (count_response ex) (r # rs) d = fold (count_response ex) rs (count_response ex r d)"
    by simp
  also have "\<dots> =
     \<lparr>total_attempts = total_attempts (count_response ex r d)
        + length (filter (\<lambda>r. fst r \<in> fst ` set ex) rs),
      correct_answers = correct_answers (count_response ex r d)
        + length (filter (\<lambda>r. fst r \<in> fst ` set ex
                            \<and> isCorrect (js_lookup ex (fst r)) (js_get (snd r) ''answer'')) rs)\<rparr>"
    by (rule Cons.IH)
  also have "\<dots> =
     \<lparr>total_attempts = total_attempts d + length (filter (\<lambda>r. fst r \<in> fst ` set ex) (r # rs)),
      correct_answers = correct_answers d
        + length (filter (\<lambda>r. fst r \<in> fst ` set ex
                            \<and> isCorrect (js_lookup ex (fst r)) (js_get (snd r) ''answer''))
                    (r # rs))\<rparr>"
    by (simp add: count_response_step)
  finally show ?case .
qed

lemma count_solution_stats_of:
  "stats_of (count_solution s modelStats) m =
     (if model s = m
      then fold (count_response (expectedAnswers_of (s_questions s) [])) (s_raw_responses s)
             (stats_of modelStats m)
      else stats_of modelStats m)"
  by (simp add: count_solution_def stats_of_def Let_def update_conv' del: fold_simps)

lemma count_solution_keys:
  "distinct (map fst modelStats) \<Longrightarrow> distinct (map fst (count_solution s modelStats))"
  by (simp add: count_solution_def Let_def distinct_update)

lemma fold_count_solution_distinct:
  "distinct (map fst modelStats) \<Longrightarrow> distinct (map fst (fold count_solution sols modelStats))"
  by (induction sols arbitrary: modelStats) (simp_all add: count_solution_keys)

lemma fold_count_solution_attempts:
  "total_attempts (stats_of (fold count_solution sols modelStats) m) =
     total_attempts (stats_of modelStats m)
     + (\<Sum>s\<leftarrow>sols. if model s = m
          then length (filter (\<lambda>r. fst r \<in> question_ids (s_questions s)) (s_raw_responses s))
          else 0)"
proof (induction sols arbitrary: modelStats)
  case Nil
  show ?case by simp
next
  case (Cons s sols)
  show ?case
    by (simp add: Cons.IH count_solution_stats_of fold_count_response
        expectedAnswers_question_ids)
qed

lemma length_filter_conj_le:
  "length (filter (\<lambda>x. P x \<and> Q x) xs) \<le> length (filter P xs)"
  by (induction xs) simp_all

lemma fold_count_solution_le:
  "correct_answers (stats_of modelStats m) \<le> total_attempts (stats_of modelStats m) \<Longrightarrow>
     correct_answers (stats_of (fold count_solution sols modelStats) m)
       \<le> total_attempts (stats_of (fold count_solution sols modelStats) m)"
proof (induction sols arbitrary: modelStats)
  case Nil
  then show ?case by simp
next
  case (Cons s sols)
  let ?ex = "expectedAnswers_of (s_questions s) []"
  have "length (filter (\<lambda>r. fst r \<in> fst ` set ?ex
                            \<and> isCorrect (js_lookup ?ex (fst r)) (js_get (snd r) ''answer''))
                  (s_raw_responses s))
          \<le> length (filter (\<lambda>r. fst r \<in> fst ` set ?ex) (s_raw_responses s))"
    by (rule length_filter_conj_le)
  with Cons.prems have
    "correct_answers (stats_of (count_solution s modelStats) m)
       \<le> total_attempts (stats_of (count_solution s modelStats) m)"
    by (simp add: count_solution_stats_of fold_count_response)
  from Cons.IH [OF this] show ?case by simp
qed

lemma stats_row_of_counts:
  "row_model (stats_row_of m d) = m \<and> row_total_attempts (stats_row_of m d) = total_attempts d
   \<and> (0 < total_attempts d \<longrightarrow> row_correct_answers (stats_row_of m d) = correct_answers d)"
  by (simp add: stats_row_of_def Let_def)

lemma calculateSolverStats_row:
  assumes "row \<in> set (calculateSolverStats solutions)"
  shows "row = stats_row_of (row_model row)
                 (stats_of (fold count_solution solutions []) (row_model row))"
proof -
  from assms obtain m d where md: "(m, d) \<in> set (fold count_solution solutions [])"
    and row: "row = stats_row_of m d"
    by (auto simp: calculateSolverStats_def)
  have "distinct (map fst (fold count_solution solutions []))"
    by (rule fold_count_solution_distinct) simp
  with md have "map_of (fold count_solution solutions []) m = Some d" by simp
  then have "stats_of (fold count_solution solutions []) m = d" by (simp add: stats_of_def)
  moreover from row have "row_model row = m" by (simp add: stats_row_of_counts)
  ultimately show ?thesis using row by simp
qed

text \<open>
  Claim C10. In the leaderboard aggregation a response whose question id is not among the
  ids of the world's questions changes neither \<open>total_attempts\<close> nor \<open>correct_answers\<close>;
  a row's attempts count the responses with a known id only, so it can be smaller than the
  number of answers submitted (one attempt for two stored answers in the example).
\<close>

theorem unknown_question_ids_are_skipped:
  "(qId \<notin> question_ids (s_questions solution) \<longrightarrow>
      count_response (expectedAnswers_of (s_questions solution) []) (qId, responseData) stats
        = stats)
   \<and> (\<forall>row \<in> set (calculateSolverStats solutions).
         row_total_attempts row =
           (\<Sum>s\<leftarrow>solutions. if model s = row_model row
              then length (filter (\<lambda>r. fst r \<in> question_ids (s_questions s)) (s_raw_responses s))
              else 0))
   \<and> length (s_raw_responses stray_solution) = 2
   \<and> map row_total_attempts (calculateSolverStats [stray_solution]) = [1]"
proof (intro conjI impI ballI)
  assume "qId \<notin> question_ids (s_questions solution)"
  then show "count_response (expectedAnswers_of (s_questions solution) []) (qId, responseData)
               stats = stats"
    by (simp add: count_response_skip expectedAnswers_question_ids)
next
  fix row assume row: "row \<in> set (calculateSolverStats solutions)"
  let ?m = "row_model row"
  from calculateSolverStats_row [OF row] have
    "row_total_attempts row
       = total_attempts (stats_of (fold count_solution solutions []) ?m)"
    using stats_row_of_counts [of ?m "stats_of (fold count_solution solutions []) ?m"]
    by simp
  also have "\<dots> = total_attempts (stats_of [] ?m)
            + (\<Sum>s\<leftarrow>solutions. if model s = ?m
              then length (filter (\<lambda>r. fst r \<in> question_ids (s_questions s)) (s_raw_responses s))
              else 0)"
    by (rule fold_count_solution_attempts)
  also have "total_attempts (stats_of [] ?m) = 0"
    by (simp add: stats_of_def)
  finally show "row_total_attempts row =
           (\<Sum>s\<leftarrow>solutions. if model s = row_model row
              then length (filter (\<lambda>r. fst r \<in> question_ids (s_questions s)) (s_raw_responses s))
              else 0)" by simp
next
  show "length (s_raw_responses stray_solution) = 2"
    by (simp add: stray_solution_def)
  have "fold count_solution [stray_solution] []
          = [(''model-a'', \<lparr>total_attempts = 1, correct_answers = 1\<rparr>)]"
    by code_simp
  then show "map row_total_attempts (calculateSolverStats [stray_solution]) = [1]"
    by (simp add: calculateSolverStats_def stats_row_of_counts)
qed

theorem unknown_question_ids_are_skipped_witness:
  "''q9'' \<notin> question_ids (s_questions stray_solution)
   \<and> count_response (expectedAnswers_of (s_questions stray_solution) [])
        (''q9'', JObj [(''answer'', JStr ''Paris'')]) \<lparr>total_attempts = 5, correct_answers = 3\<rparr>
       = \<lparr>total_attempts = 5, correct_answers = 3\<rparr>
   \<and> length (s_raw_responses stray_solution) = 2
   \<and> map row_total_attempts (calculateSolverStats [stray_solution]) = [1]"
proof -
  have n: "''q9'' \<notin> question_ids (s_questions stray_solution)"
    by code_simp
  from unknown_question_ids_are_skipped
         [of "''q9''" stray_solution "JObj [(''answer'', JStr ''Paris'')]"
             "\<lparr>total_attempts = 5, correct_answers = 3\<rparr>" "[stray_solution]"] n
  show ?thesis by blast
qed

text \<open>
  Claim C6. For every leaderboard row with \<open>n > 0\<close> attempts and \<open>k\<close> correct, the interval
  is the Wilson score interval with \<open>z = 1.96\<close> around \<open>p = k / n\<close>, clamped to \<open>[0, 1]\<close>
  (the row holds percentages), and \<open>0 \<le> ci_lower \<le> percent_correct \<le> ci_upper \<le> 100\<close>.
\<close>

theorem wilson_interval_bounds:
  assumes "row \<in> set (calculateSolverStats solutions)" and "0 < row_total_attempts row"
  shows "(let n = real (row_total_attempts row);
              p = real (row_correct_answers row) / n
          in percent_correct row = p * 100
             \<and> ci_margin row = wilson_margin 1.96 n p * 100
             \<and> ci_lower row = max 0 (wilson_center 1.96 n p - wilson_margin 1.96 n p) * 100
             \<and> ci_upper row = min 1 (wilson_center 1.96 n p + wilson_margin 1.96 n p) * 100
             \<and> row_correct_answers row \<le> row_total_attempts row
             \<and> 0 \<le> ci_lower row \<and> ci_lower row \<le> percent_correct row
             \<and> percent_correct row \<le> ci_upper row \<and> ci_upper row \<le> 100)"
proof -
  define m where "m = row_model row"
  define d where "d = stats_of (fold count_solution solutions []) m"
  define n where "n = real (total_attempts d)"
  define p where "p = real (correct_answers d) / n"
  have row: "row = stats_row_of m d"
    unfolding m_def d_def by (rule calculateSolverStats_row [OF assms(1)])
  with assms(2) have pos: "0 < total_attempts d"
    using stats_row_of_counts [of m d] by simp
  then have n: "0 < n" by (simp add: n_def)
  have "correct_answers (stats_of [] m) \<le> total_attempts (stats_of [] m)"
    by (simp add: stats_of_def)
  then have le: "correct_answers d \<le> total_attempts d"
    unfolding d_def by (rule fold_count_solution_le)
  have p0: "0 \<le> p" unfolding p_def using n by simp
  have p1: "p \<le> 1" unfolding p_def n_def using le pos by simp
  from pos have ne: "total_attempts d \<noteq> 0" by simp
  have sr: "stats_row_of m d =
      \<lparr>row_model = m, row_total_attempts = total_attempts d,
       row_correct_answers = correct_answers d, percent_correct = p * 100,
       ci_lower = max 0 (wilson_center 1.96 n p - wilson_margin 1.96 n p) * 100,
       ci_upper = min 1 (wilson_center 1.96 n p + wilson_margin 1.96 n p) * 100,
       ci_margin = wilson_margin 1.96 n p * 100\<rparr>"
    unfolding stats_row_of_def Let_def wilson_center_def wilson_margin_def n_def p_def
    using ne by (simp only: if_False)
  have fields: "row_total_attempts row = total_attempts d"
    "row_correct_answers row = correct_answers d"
    "percent_correct row = p * 100"
    "ci_margin row = wilson_margin 1.96 n p * 100"
    "ci_lower row = max 0 (wilson_center 1.96 n p - wilson_margin 1.96 n p) * 100"
    "ci_upper row = min 1 (wilson_center 1.96 n p + wilson_margin 1.96 n p) * 100"
    unfolding row sr by simp_all
  have z: "(0::real) \<le> 1.96" by simp
  note w = wilson_bounds [OF n p0 p1 z]
  have lo: "max 0 (wilson_center 1.96 n p - wilson_margin 1.96 n p) \<le> p"
    using w(1) p0 by simp
  have hi: "p \<le> min 1 (wilson_center 1.96 n p + wilson_margin 1.96 n p)"
    using w(2) p1 by simp
  have "0 \<le> ci_lower row" by (simp add: fields)
  moreover have "ci_lower row \<le> percent_correct row" using lo by (simp add: fields)
  moreover have "percent_correct row \<le> ci_upper row" using hi by (simp add: fields)
  moreover have "ci_upper row \<le> 100" by (simp add: fields)
  ultimately show ?thesis
    unfolding Let_def using fields le
    by (simp add: n_def p_def)
qed

theorem wilson_interval_bounds_witness:
  "stats_row_of ''model-a'' \<lparr>total_attempts = 1, correct_answers = 1\<rparr>
       \<in> set (calculateSolverStats [stray_solution])
   \<and> 0 < row_total_attempts (stats_row_of ''model-a'' \<lparr>total_attempts = 1, correct_answers = 1\<rparr>)
   \<and> 0 \<le> ci_lower (stats_row_of ''model-a'' \<lparr>total_attempts = 1, correct_answers = 1\<rparr>)
   \<and> ci_lower (stats_row_of ''model-a'' \<lparr>total_attempts = 1, correct_answers = 1\<rparr>) \<le> 100
   \<and> percent_correct (stats_row_of ''model-a'' \<lparr>total_attempts = 1, correct_answers = 1\<rparr>) = 100
   \<and> 100 \<le> ci_upper (stats_row_of ''model-a'' \<lparr>total_attempts = 1, correct_answers = 1\<rparr>)
   \<and> ci_upper (stats_row_of ''model-a'' \<lparr>total_attempts = 1, correct_answers = 1\<rparr>) \<le> 100"
proof -
  let ?row = "stats_row_of ''model-a'' \<lparr>total_attempts = 1, correct_answers = 1\<rparr>"
  have "fold count_solution [stray_solution] []
          = [(''model-a'', \<lparr>total_attempts = 1, correct_answers = 1\<rparr>)]"
    by code_simp
  then have 1: "?row \<in> set (calculateSolverStats [stray_solution])"
    by (simp add: calculateSolverStats_def)
  have 2: "0 < row_total_attempts ?row"
    using stats_row_of_counts [of "''model-a''" "\<lparr>total_attempts = 1, correct_answers = 1\<rparr>"]
    by simp
  have 3: "row_correct_answers ?row = 1"
    using stats_row_of_counts [of "''model-a''" "\<lparr>total_attempts = 1, correct_answers = 1\<rparr>"]
    by simp
  have 4: "row_total_attempts ?row = 1"
    using stats_row_of_counts [of "''model-a''" "\<lparr>total_attempts = 1, correct_answers = 1\<rparr>"]
    by simp
  note th = wilson_interval_bounds [OF 1 2, unfolded Let_def 3 4]
  from th have a: "percent_correct ?row = 100" by simp
  from th have b: "0 \<le> ci_lower ?row" by blast
  from th have c: "ci_lower ?row \<le> percent_correct ?row" by blast
  from th have d: "percent_correct ?row \<le> ci_upper ?row" by blast
  from th have e: "ci_upper ?row \<le> 100" by blast
  from a b c d e 1 2 show ?thesis by simp
qed

end
